theory Spec2Isabelle
  imports Complex_Main "HOL-Library.Sublist"
begin

section \<open>Numbers and rectangles\<close>

text \<open>
  Python integers are \<open>int\<close>. A value produced by Python's true division \<open>/\<close> is a
  float; it is modelled by the exact quotient in \<open>rat\<close>. \<open>int(x)\<close> truncates toward
  zero, and so does the assignment of a float to a field of a \<open>pygame.Rect\<close>.
\<close>

definition py_int :: "rat \<Rightarrow> int" where
  "py_int r = (if r < 0 then \<lceil>r\<rceil> else \<lfloor>r\<rfloor>)"

record rect =
  left :: int
  top :: int
  width :: int
  height :: int

section \<open>Stack layout (stacks.py)\<close>

text \<open>
  \<open>UIStackStyle\<close> of style.py, with the field \<open>floating_scrollbars\<close> that stacks.py reads.
\<close>

record stack_style =
  spacing :: int
  padding :: int
  scroll_x :: bool
  scroll_y :: bool
  grow_x :: bool
  grow_y :: bool
  shrink_x :: bool
  shrink_y :: bool
  fill_x :: bool
  fill_y :: bool
  anchor :: string
  align :: string
  scrollbar_size :: int
  floating_scrollbars :: bool

text \<open>
  What \<open>_refresh_stack\<close> reads and writes of a child: the flags \<open>ignore_stack\<close> and
  \<open>status.visible\<close>, the \<open>relative_rect\<close> and \<open>style.stack\<close>. Children are plain
  elements without anchors or resizers, so that \<open>set_size\<close> and \<open>set_relative_pos\<close> of a
  child change its \<open>relative_rect\<close> and nothing else of the stack.
\<close>

record stack_child =
  sc_ignore_stack :: bool
  sc_visible :: bool
  sc_rect :: rect
  sc_style :: stack_style

text \<open>
  The stack itself. \<open>UIStack.__init__\<close> creates the two scrollbars with the stack as
  parent before any other child exists, so they are the first two entries of
  \<open>children\<close>, flagged \<open>ignore_stack\<close> by \<open>UIScrollbar.__init__\<close>; the \<open>status.visible\<close>
  flag that \<open>_refresh\<close> of a scrollbar sets is kept in \<open>vscrollbar_visible\<close> and
  \<open>hscrollbar_visible\<close>.
\<close>

record ui_stack =
  sk_running :: bool
  sk_done :: bool
  sk_rect :: rect
  sk_style :: stack_style
  sk_children :: "stack_child list"
  content_x :: int
  content_y :: int
  total_x :: int
  total_y :: int
  sk_scroll_offset :: "rat \<times> rat"
  vscrollbar_visible :: bool
  hscrollbar_visible :: bool

text \<open>\<open>Element.set_size\<close> and \<open>Element.set_relative_pos\<close> on a child.\<close>

definition child_set_size :: "rat \<times> rat \<Rightarrow> stack_child \<Rightarrow> stack_child" where
  "child_set_size sz c =
     (let s0 = py_int (fst sz); s1 = py_int (snd sz) in
      if (width (sc_rect c), height (sc_rect c)) = (s0, s1) then c
      else c\<lparr>sc_rect := (sc_rect c)\<lparr>width := max 1 s0, height := max 1 s1\<rparr>\<rparr>)"

definition child_set_relative_pos :: "rat \<times> rat \<Rightarrow> stack_child \<Rightarrow> stack_child" where
  "child_set_relative_pos position c =
     (if (left (sc_rect c), top (sc_rect c)) = (py_int (fst position), py_int (snd position)) then c
      else c\<lparr>sc_rect := (sc_rect c)\<lparr>left := py_int (fst position), top := py_int (snd position)\<rparr>\<rparr>)"

text \<open>
  The measure loop of \<open>VStack._refresh_stack\<close> (lines 106 to 118). The accumulator is
  \<open>(total_x, total_y, active_children_num, children_with_fill_y)\<close>, the last as the
  list of indices into \<open>children\<close>; \<open>i\<close> is the index \<open>enumerate\<close> gives.
\<close>

fun vstack_measure ::
  "int \<Rightarrow> nat \<Rightarrow> stack_child list \<Rightarrow> int \<times> int \<times> nat \<times> nat list \<Rightarrow> int \<times> int \<times> nat \<times> nat list" where
  "vstack_measure sp i [] acc = acc"
| "vstack_measure sp i (child # rest) (tx, ty, num, fills) =
     (if sc_ignore_stack child \<or> \<not> sc_visible child then vstack_measure sp (Suc i) rest (tx, ty, num, fills)
      else
        let tx' = (if width (sc_rect child) > tx \<and> \<not> fill_x (sc_style child)
                   then width (sc_rect child) else tx) in
        if fill_y (sc_style child) then vstack_measure sp (Suc i) rest (tx', ty, num + 1, fills @ [i])
        else
          let ty' = (if i > 0 then ty + sp else ty) in
          vstack_measure sp (Suc i) rest (tx', ty' + height (sc_rect child), num + 1, fills))"

text \<open>The same loop of \<open>HStack._refresh_stack\<close> (lines 261 to 274).\<close>

fun hstack_measure ::
  "int \<Rightarrow> nat \<Rightarrow> stack_child list \<Rightarrow> int \<times> int \<times> nat \<times> nat list \<Rightarrow> int \<times> int \<times> nat \<times> nat list" where
  "hstack_measure sp i [] acc = acc"
| "hstack_measure sp i (child # rest) (tx, ty, num, fills) =
     (if sc_ignore_stack child \<or> \<not> sc_visible child then hstack_measure sp (Suc i) rest (tx, ty, num, fills)
      else
        let ty' = (if height (sc_rect child) > ty \<and> \<not> fill_y (sc_style child)
                   then height (sc_rect child) else ty) in
        if fill_x (sc_style child) then hstack_measure sp (Suc i) rest (tx, ty', num + 1, fills @ [i])
        else
          let tx' = (if i > 0 then tx + sp else tx) in
          hstack_measure sp (Suc i) rest (tx' + width (sc_rect child), ty', num + 1, fills))"

text \<open>
  \<open>UIVScrollbar._refresh\<close> and \<open>UIHScrollbar._refresh\<close>, as far as they change the stack:
  the visibility of the scrollbar and the reset of the scroll offset. The geometry of
  the scrollbar and of its handle is not part of the model. Both read \<open>total_y\<close>
  and \<open>total_x\<close> as the stack holds them at the time of the call.
\<close>

definition vscrollbar_refresh :: "ui_stack \<Rightarrow> ui_stack" where
  "vscrollbar_refresh st =
     (let style = sk_style st in
      if \<not> scroll_y style \<or> grow_y style then st\<lparr>vscrollbar_visible := False\<rparr>
      else if total_y st \<le> height (sk_rect st) then
        (if snd (sk_scroll_offset st) \<noteq> 0
         then st\<lparr>sk_scroll_offset := (fst (sk_scroll_offset st), 0), vscrollbar_visible := False\<rparr>
         else st\<lparr>vscrollbar_visible := False\<rparr>)
      else st\<lparr>vscrollbar_visible := True\<rparr>)"

definition hscrollbar_refresh :: "ui_stack \<Rightarrow> ui_stack" where
  "hscrollbar_refresh st =
     (let style = sk_style st in
      if \<not> scroll_x style \<or> grow_x style then st\<lparr>hscrollbar_visible := False\<rparr>
      else if total_x st \<le> width (sk_rect st) then
        (if fst (sk_scroll_offset st) \<noteq> 0
         then st\<lparr>sk_scroll_offset := (0, snd (sk_scroll_offset st)), hscrollbar_visible := False\<rparr>
         else st\<lparr>hscrollbar_visible := False\<rparr>)
      else st\<lparr>hscrollbar_visible := True\<rparr>)"

text \<open>
  The scrollbar block shared by both stacks (lines 134 to 150 and 290 to 306); it
  returns the stack with \<open>(scroll_x, scroll_y)\<close>.
\<close>

definition refresh_scrollbars :: "ui_stack \<Rightarrow> ui_stack \<times> int \<times> int" where
  "refresh_scrollbars st =
     (let style = sk_style st in
      if floating_scrollbars style then (hscrollbar_refresh (vscrollbar_refresh st), 0, 0)
      else
        let st1 = vscrollbar_refresh st;
            scr_x = (if vscrollbar_visible st1 then scrollbar_size style else 0);
            st2 = hscrollbar_refresh st1
        in if hscrollbar_visible st2 then
             let scr_y = scrollbar_size style;
                 st3 = vscrollbar_refresh st2
             in if vscrollbar_visible st3
                then (hscrollbar_refresh st3, scrollbar_size style, scr_y)
                else (st3, scr_x, scr_y)
           else (st2, scr_x, 0))"

text \<open>
  The share of a fill child. \<open>VStack\<close> clamps the available space at zero (lines 159
  and 160); \<open>HStack\<close> has no such lines (311 to 317).
\<close>

definition vstack_space_for_each_child :: "ui_stack \<Rightarrow> int \<Rightarrow> int \<Rightarrow> nat \<Rightarrow> rat" where
  "vstack_space_for_each_child st old_tot_y scr_y n =
     (let space_available = height (sk_rect st) - old_tot_y - scr_y;
          space_available = space_available - spacing (sk_style st) * (int n - 1);
          space_available = (if space_available < 0 then 0 else space_available)
      in of_int space_available / of_int (int n))"

definition hstack_space_for_each_child :: "ui_stack \<Rightarrow> int \<Rightarrow> int \<Rightarrow> nat \<Rightarrow> rat" where
  "hstack_space_for_each_child st old_tot_x scr_x n =
     (let space_available = width (sk_rect st) - old_tot_x - scr_x;
          space_available = space_available - spacing (sk_style st) * (int n - 1)
      in of_int space_available / of_int (int n))"

text \<open>\<open>for child in children_with_fill: child.set_size(...)\<close>, over the indices.\<close>

definition vstack_set_fill_sizes :: "rat \<Rightarrow> nat list \<Rightarrow> stack_child list \<Rightarrow> stack_child list" where
  "vstack_set_fill_sizes share fills cs =
     fold (\<lambda>i cs. cs[i := child_set_size (of_int (width (sc_rect (cs ! i))), share) (cs ! i)]) fills cs"

definition hstack_set_fill_sizes :: "rat \<Rightarrow> nat list \<Rightarrow> stack_child list \<Rightarrow> stack_child list" where
  "hstack_set_fill_sizes share fills cs =
     fold (\<lambda>i cs. cs[i := child_set_size (share, of_int (height (sc_rect (cs ! i)))) (cs ! i)]) fills cs"

text \<open>
  The position loops (lines 188 to 209 and 341 to 362). \<open>w\<close>, \<open>h\<close> are the stack's
  size when the loop runs, \<open>cur\<close> the cursor on the main axis.
\<close>

fun vstack_place ::
  "stack_style \<Rightarrow> int \<Rightarrow> int \<Rightarrow> rat \<Rightarrow> nat \<Rightarrow> nat \<Rightarrow> rat \<Rightarrow> stack_child list \<Rightarrow> stack_child list" where
  "vstack_place style w scr_x sp i i_o cur [] = []"
| "vstack_place style w scr_x sp i i_o cur (child # rest) =
     (if sc_ignore_stack child \<or> \<not> sc_visible child
      then child # vstack_place style w scr_x sp (Suc i) (Suc i_o) cur rest
      else
        let cur = (if i > i_o then cur + sp else cur);
            child_x =
              (if \<not> fill_x (sc_style child) \<and> width (sc_rect child) < w - scr_x then
                 (if align (sc_style child) = ''center''
                  then (w - scr_x) div 2 - width (sc_rect child) div 2
                  else if align (sc_style child) = ''right'' \<or> align (sc_style child) = ''bottom''
                  then (w - scr_x) - width (sc_rect child) - padding style
                  else padding style)
               else padding style);
            child = (if fill_x (sc_style child)
                     then child_set_size (of_int (w - padding style * 2 - scr_x),
                                          of_int (height (sc_rect child))) child
                     else child);
            child = child_set_relative_pos (of_int child_x, cur) child
        in child # vstack_place style w scr_x sp (Suc i) i_o (cur + of_int (height (sc_rect child))) rest)"

fun hstack_place ::
  "stack_style \<Rightarrow> int \<Rightarrow> int \<Rightarrow> rat \<Rightarrow> nat \<Rightarrow> nat \<Rightarrow> rat \<Rightarrow> stack_child list \<Rightarrow> stack_child list" where
  "hstack_place style h scr_y sp i i_o cur [] = []"
| "hstack_place style h scr_y sp i i_o cur (child # rest) =
     (if sc_ignore_stack child \<or> \<not> sc_visible child
      then child # hstack_place style h scr_y sp (Suc i) (Suc i_o) cur rest
      else
        let cur = (if i > i_o then cur + sp else cur);
            child_y =
              (if \<not> fill_y (sc_style child) \<and> height (sc_rect child) < h - scr_y then
                 (if align (sc_style child) = ''center''
                  then (h - scr_y) div 2 - height (sc_rect child) div 2
                  else if align (sc_style child) = ''bottom'' \<or> align (sc_style child) = ''right''
                  then (h - scr_y) - height (sc_rect child) - padding style
                  else padding style)
               else padding style);
            child = (if fill_y (sc_style child)
                     then child_set_size (of_int (width (sc_rect child)),
                                          of_int (h - padding style * 2)) child
                     else child);
            child = child_set_relative_pos (cur, of_int child_y) child
        in child # hstack_place style h scr_y sp (Suc i) i_o (cur + of_int (width (sc_rect child))) rest)"

text \<open>
  \<open>spacing\<close> under the anchor \<open>max_spacing\<close> (lines 165 to 171 and 319 to 325): the
  new \<open>(total, spacing)\<close> on the main axis, \<open>extent\<close> being the stack's extent there.
\<close>

definition max_spacing :: "stack_style \<Rightarrow> int \<Rightarrow> int \<Rightarrow> int \<Rightarrow> nat \<Rightarrow> int \<times> rat" where
  "max_spacing style extent scroll tot num =
     (if anchor style = ''max_spacing'' \<and> tot < extent - scroll then
        let remaining = extent - scroll - tot;
            d = max (int num - 1) 1
        in (extent - scroll, of_int remaining / of_int d + of_int (padding style) / of_int d)
      else (tot, of_int (spacing style)))"

text \<open>
  \<open>set_size\<close> of the stack on itself, without the \<open>_refresh_stack\<close> it may end with:
  the early return on an unchanged size and the clamp at 1.
\<close>

definition stack_resize :: "int \<times> int \<Rightarrow> ui_stack \<Rightarrow> ui_stack" where
  "stack_resize sz st =
     (if (width (sk_rect st), height (sk_rect st)) = sz then st
      else st\<lparr>sk_rect := (sk_rect st)\<lparr>width := max 1 (fst sz), height := max 1 (snd sz)\<rparr>\<rparr>)"

text \<open>
  \<open>VStack._refresh_stack\<close>. The call \<open>self.set_size((total_x, h))\<close> of lines 127 to 129
  ends in \<open>self._refresh_stack()\<close>, a recursion that need not end (a stack of content
  width 0 with \<open>shrink_x\<close> is clamped to width 1 and shrinks again); the fuel stands for
  the depth of Python's call stack, and \<open>None\<close> for running out of it. The later
  \<open>set_size\<close> calls pass \<open>refresh_stack=False\<close>.
\<close>

fun VStack_refresh_stack :: "nat \<Rightarrow> ui_stack \<Rightarrow> ui_stack option" where
  "VStack_refresh_stack 0 st = None"
| "VStack_refresh_stack (Suc n) st =
     (if \<not> sk_running st \<or> \<not> sk_done st then Some st
      else
        let style = sk_style st;
            (tx, ty, active_children_num, fills) =
               vstack_measure (spacing style) 0 (sk_children st) (0, padding style, 0, []);
            tot_y = ty + padding style;
            tot_x = tx + padding style * 2;
            old_tot_y = tot_y;
            tot_y = (if length fills > 0 \<and> tot_y < height (sk_rect st)
                       then height (sk_rect st) else tot_y);
            resized =
              (if (tot_x < width (sk_rect st) \<and> shrink_x style) \<or>
                  (tot_x > width (sk_rect st) \<and> grow_x style)
               then (if (width (sk_rect st), height (sk_rect st)) = (tot_x, height (sk_rect st))
                     then Some st
                     else VStack_refresh_stack n (stack_resize (tot_x, height (sk_rect st)) st))
               else Some st)
        in case resized of None \<Rightarrow> None
           | Some st \<Rightarrow>
        let st = st\<lparr>content_x := tot_x, content_y := tot_y\<rparr>;
            (st, scr_x, scr_y) = refresh_scrollbars st;
            st = st\<lparr>total_x := content_x st + scr_x, total_y := content_y st + scr_y\<rparr>;
            st = (if length fills > 0
                  then st\<lparr>sk_children :=
                         vstack_set_fill_sizes
                           (vstack_space_for_each_child st old_tot_y scr_y (length fills))
                           fills (sk_children st)\<rparr>
                  else st);
            (tot_y, sp) = max_spacing style (height (sk_rect st)) scr_y tot_y active_children_num;
            below = (tot_y < height (sk_rect st) - scr_y);
            current_y =
              (if below \<and> \<not> shrink_y style then
                 (if anchor style = ''center''
                  then (height (sk_rect st) - scr_y) div 2 - tot_y div 2
                  else if anchor style = ''bottom'' \<or> anchor style = ''right''
                  then (height (sk_rect st) - scr_y) - tot_y
                  else 0)
               else 0);
            st = (if below then
                    (if shrink_y style then stack_resize (width (sk_rect st), tot_y) st else st)
                  else if tot_y > height (sk_rect st) \<and> grow_y style
                  then stack_resize (width (sk_rect st), tot_y) st
                  else st);
            current_y = current_y + padding style
        in Some (st\<lparr>sk_children :=
                   vstack_place style (width (sk_rect st)) scr_x sp 0 0 (of_int current_y)
                     (sk_children st)\<rparr>))"

text \<open>
  \<open>HStack._refresh_stack\<close>. Here the \<open>set_size\<close> calls of lines 330 and 339 keep the
  default \<open>refresh_stack=True\<close> and recurse as well.
\<close>

fun HStack_refresh_stack :: "nat \<Rightarrow> ui_stack \<Rightarrow> ui_stack option" where
  "HStack_refresh_stack 0 st = None"
| "HStack_refresh_stack (Suc n) st =
     (if \<not> sk_running st \<or> \<not> sk_done st then Some st
      else
        let style = sk_style st;
            (tx, ty, active_children_num, fills) =
               hstack_measure (spacing style) 0 (sk_children st) (padding style, 0, 0, []);
            tot_x = tx + padding style;
            tot_y = ty + padding style * 2;
            old_tot_x = tot_x;
            tot_x = (if length fills > 0 \<and> tot_x < width (sk_rect st)
                       then width (sk_rect st) else tot_x);
            resized =
              (if (tot_y < height (sk_rect st) \<and> shrink_y style) \<or>
                  (tot_y > height (sk_rect st) \<and> grow_y style)
               then (if (width (sk_rect st), height (sk_rect st)) = (width (sk_rect st), tot_y)
                     then Some st
                     else HStack_refresh_stack n (stack_resize (width (sk_rect st), tot_y) st))
               else Some st)
        in case resized of None \<Rightarrow> None
           | Some st \<Rightarrow>
        let st = st\<lparr>content_x := tot_x, content_y := tot_y\<rparr>;
            (st, scr_x, scr_y) = refresh_scrollbars st;
            st = st\<lparr>total_x := content_x st + scr_x, total_y := content_y st + scr_y\<rparr>;
            st = (if length fills > 0
                  then st\<lparr>sk_children :=
                         hstack_set_fill_sizes
                           (hstack_space_for_each_child st old_tot_x scr_x (length fills))
                           fills (sk_children st)\<rparr>
                  else st);
            (tot_x, sp) = max_spacing style (width (sk_rect st)) scr_x tot_x active_children_num;
            below = (tot_x < width (sk_rect st) - scr_x);
            current_x =
              (if below \<and> \<not> shrink_x style then
                 (if anchor style = ''center''
                  then (width (sk_rect st) - scr_x) div 2 - tot_x div 2
                  else if anchor style = ''right'' \<or> anchor style = ''bottom''
                  then (width (sk_rect st) - scr_x) - tot_x
                  else padding style)
               else padding style);
            resized =
              (if (below \<and> shrink_x style) \<or>
                  (\<not> below \<and> tot_x > width (sk_rect st) \<and> grow_x style)
               then (if (width (sk_rect st), height (sk_rect st)) = (tot_x, height (sk_rect st))
                     then Some st
                     else HStack_refresh_stack n (stack_resize (tot_x, height (sk_rect st)) st))
               else Some st)
        in case resized of None \<Rightarrow> None
           | Some st \<Rightarrow>
             Some (st\<lparr>sk_children :=
                     hstack_place style (height (sk_rect st)) scr_y sp 0 0 (of_int current_x)
                       (sk_children st)\<rparr>))"

text \<open>
  The children that the loops of \<open>_refresh_stack\<close> do not skip.
\<close>

definition stack_counted :: "stack_child \<Rightarrow> bool" where
  "stack_counted c = (\<not> sc_ignore_stack c \<and> sc_visible c)"

text \<open>
  Concrete stacks: the style of \<open>UIStackStyle.__init__\<close> with \<open>fill_y\<close> off, the two
  scrollbars every stack starts with, and a child of a given size and fill flags.
\<close>

definition example_style :: stack_style where
  "example_style =
     \<lparr>spacing = 5, padding = 7, scroll_x = True, scroll_y = True, grow_x = False,
      grow_y = False, shrink_x = False, shrink_y = False, fill_x = False, fill_y = False,
      anchor = ''top'', align = ''left'', scrollbar_size = 10, floating_scrollbars = False\<rparr>"

definition example_scrollbar :: stack_child where
  "example_scrollbar =
     \<lparr>sc_ignore_stack = True, sc_visible = False,
      sc_rect = \<lparr>left = 0, top = 0, width = 10, height = 10\<rparr>, sc_style = example_style\<rparr>"

definition example_child :: "int \<Rightarrow> int \<Rightarrow> bool \<Rightarrow> bool \<Rightarrow> stack_child" where
  "example_child w h fx fy =
     \<lparr>sc_ignore_stack = False, sc_visible = True,
      sc_rect = \<lparr>left = 0, top = 0, width = w, height = h\<rparr>,
      sc_style = example_style\<lparr>fill_x := fx, fill_y := fy\<rparr>\<rparr>"

definition example_stack :: "int \<Rightarrow> int \<Rightarrow> stack_child list \<Rightarrow> ui_stack" where
  "example_stack w h cs =
     \<lparr>sk_running = True, sk_done = True,
      sk_rect = \<lparr>left = 0, top = 0, width = w, height = h\<rparr>, sk_style = example_style,
      sk_children = example_scrollbar # example_scrollbar # cs,
      content_x = 0, content_y = 0, total_x = 0, total_y = 0, sk_scroll_offset = (0, 0),
      vscrollbar_visible = False, hscrollbar_visible = False\<rparr>"

section \<open>Style cascade (style.py)\<close>

text \<open>
  The values a style property can hold, and the exceptions of the modelled code.
  \<open>VEnum\<close> stands for a member of a module that is not part of the sources
  (\<open>enums.StackAnchor.middle\<close>, \<open>pygame.FONT_CENTER\<close>); \<open>VFont\<close> for the font object
  that \<open>build_font\<close> creates: whether \<open>SysFont\<close> made it, the name and the size it was
  made with, and the four flags \<open>apply_mods\<close> sets.
\<close>

datatype pyval =
    VNone
  | VBool bool
  | VInt int
  | VRat rat
  | VStr string
  | VTuple "pyval list"
  | VList "pyval list"
  | VEnum string
  | VFont bool pyval int bool bool bool bool

datatype py_error =
    UIError string
  | AttributeError string
  | TypeError
  | ValueError
  | UnboundLocalError
  | FileNotFoundError
  | OverflowError
  | PygameError

fun py_truthy :: "pyval \<Rightarrow> bool" where
  "py_truthy VNone = False"
| "py_truthy (VBool b) = b"
| "py_truthy (VInt n) = (n \<noteq> 0)"
| "py_truthy (VRat r) = (r \<noteq> 0)"
| "py_truthy (VStr s) = (s \<noteq> [])"
| "py_truthy (VTuple xs) = (xs \<noteq> [])"
| "py_truthy (VList xs) = (xs \<noteq> [])"
| "py_truthy (VEnum e) = True"
| "py_truthy (VFont sys name sz b i u s) = True"

text \<open>
  An object of one of the component style classes is the dictionary of its instance
  attributes, as \<open>__init__\<close> creates them. \<open>hasattr\<close> is membership in that dictionary:
  the names of methods and the attributes every Python object has (\<open>__class__\<close>,
  \<open>__dict__\<close>, ...) pass \<open>hasattr\<close> too, and are not told apart here from unknown
  names.
\<close>

type_synonym comp_style = "string \<rightharpoonup> pyval"

definition UIStackStyle_init :: comp_style where
  "UIStackStyle_init = map_of
     [(''spacing'', VInt 5), (''padding'', VInt 7), (''scroll_x'', VBool True),
      (''scroll_y'', VBool True), (''grow_x'', VBool False), (''grow_y'', VBool False),
      (''shrink_x'', VBool False), (''shrink_y'', VBool False), (''fill_x'', VBool False),
      (''fill_y'', VBool True), (''anchor'', VEnum ''StackAnchor.middle''),
      (''align'', VEnum ''ElementAlign.middle''), (''scrollbar_size'', VInt 10)]"

definition UIBGStyle_init :: comp_style where
  "UIBGStyle_init = map_of
     [(''enabled'', VBool True), (''color'', VTuple [VInt 25, VInt 25, VInt 25]),
      (''border_radius'', VInt 7)]"

definition UIImageStyle_init :: comp_style where
  "UIImageStyle_init = map_of
     [(''enabled'', VBool True), (''image'', VNone), (''padding'', VInt 5),
      (''border_radius'', VInt 7), (''stretch_x'', VBool False), (''stretch_y'', VBool False),
      (''fill'', VBool False), (''border_size'', VInt 0), (''outline_width'', VInt 0),
      (''outline_color'', VTuple [VInt 50, VInt 50, VInt 50])]"

definition UIShapeStyle_init :: comp_style where
  "UIShapeStyle_init = map_of
     [(''enabled'', VBool True), (''color'', VTuple [VInt 0, VInt 120, VInt 255]),
      (''outline_width'', VInt 0), (''type'', VStr ''rect''), (''padding'', VInt 8),
      (''rect_border_radius'', VInt 7), (''polygon_points'', VList []),
      (''ellipse_padding_x'', VInt 10), (''ellipse_padding_y'', VInt 20)]"

definition UITextStyle_fields :: comp_style where
  "UITextStyle_fields = map_of
     [(''enabled'', VBool True), (''text'', VStr []),
      (''color'', VTuple [VInt 255, VInt 255, VInt 255]), (''bg_color'', VNone),
      (''padding'', VInt 5), (''y_padding'', VInt 1), (''align'', VStr ''center''),
      (''antialas'', VBool True), (''font_name'', VStr ''Segoe UI''), (''font_size'', VInt 22),
      (''sysfont'', VBool True), (''font_align'', VEnum ''pygame.FONT_CENTER''),
      (''bold'', VBool False), (''italic'', VBool False), (''underline'', VBool False),
      (''strikethrough'', VBool False)]"

definition UIIconStyle_init :: comp_style where
  "UIIconStyle_init = map_of
     [(''enabled'', VBool True), (''name'', VNone), (''scale'', VInt 1), (''padding'', VInt 5),
      (''align'', VStr ''center'')]"

definition UIOutlineStyle_init :: comp_style where
  "UIOutlineStyle_init = map_of
     [(''enabled'', VBool True), (''color'', VTuple [VInt 50, VInt 50, VInt 50]),
      (''width'', VInt 1), (''border_radius'', VInt 7)]"

text \<open>
  pygame and the built-in \<open>int\<close> of Python are not part of the sources; what
  \<open>build_font\<close> needs of them is a parameter of the model: the exception, if any, that
  \<open>pygame.Font(name, size)\<close> and \<open>pygame.font.SysFont(name, size)\<close> raise (a font file
  that does not exist, a size that does not fit a C int, a font module that is not
  initialised), and \<open>int\<close> of a string and of a member of a foreign module.
\<close>

record py_env =
  pygame_Font :: "pyval \<Rightarrow> int \<Rightarrow> py_error option"
  pygame_SysFont :: "pyval \<Rightarrow> int \<Rightarrow> py_error option"
  int_str :: "string \<Rightarrow> py_error + int"
  int_enum :: "string \<Rightarrow> py_error + int"

text \<open>\<open>int(self.font_size)\<close>.\<close>

definition int_conv :: "py_env \<Rightarrow> pyval \<Rightarrow> py_error + int" where
  "int_conv env v =
     (case v of
        VInt n \<Rightarrow> Inr n
      | VRat r \<Rightarrow> Inr (py_int r)
      | VBool b \<Rightarrow> Inr (if b then 1 else 0)
      | VStr s \<Rightarrow> int_str env s
      | VEnum e \<Rightarrow> int_enum env e
      | _ \<Rightarrow> Inl TypeError)"

text \<open>
  \<open>UITextStyle.build_font\<close> and \<open>UITextStyle.apply_mods\<close>. The directory of style.py,
  which the name \<open>googleicons\<close> is resolved against, is \<open>module_dir\<close>. The argument
  \<open>int(self.font_size)\<close> is evaluated before the constructor is called. A text
  component without one of the three attributes read cannot arise, for no attribute
  is ever deleted; the model answers \<open>AttributeError\<close> there.
\<close>

definition module_dir :: string where
  "module_dir = ''src/guiscript''"

definition build_font :: "py_env \<Rightarrow> comp_style \<Rightarrow> py_error + comp_style" where
  "build_font env txt =
     (case (txt ''sysfont'', txt ''font_name'', txt ''font_size'') of
        (Some sysfont, Some font_name, Some font_size) \<Rightarrow>
          (let sys = (py_truthy sysfont \<and> font_name \<noteq> VStr ''googleicons'');
               font_name = (if font_name = VStr ''googleicons''
                            then VStr (module_dir @ ''/googleiconsfontttf.py'') else font_name)
           in case int_conv env font_size of
                Inl err \<Rightarrow> Inl err
              | Inr n \<Rightarrow>
                  (case (if sys then pygame_SysFont env else pygame_Font env) font_name n of
                     Some err \<Rightarrow> Inl err
                   | None \<Rightarrow> Inr (txt(''font'' \<mapsto> VFont sys font_name n False False False False))))
      | _ \<Rightarrow> Inl (AttributeError ''font''))"

definition apply_mods :: "comp_style \<Rightarrow> comp_style" where
  "apply_mods txt =
     (case (txt ''font'', txt ''bold'', txt ''italic'', txt ''underline'', txt ''strikethrough'') of
        (Some (VFont sys font_name n b i u s), Some bold, Some italic, Some underline,
         Some strikethrough) \<Rightarrow>
          txt(''font'' \<mapsto> VFont sys font_name n (py_truthy bold) (py_truthy italic)
                               (py_truthy underline) (py_truthy strikethrough))
      | _ \<Rightarrow> txt)"

text \<open>\<open>UITextStyle.__init__\<close>: the attributes, then \<open>build_font\<close> and \<open>apply_mods\<close>.\<close>

definition UITextStyle_init :: "py_env \<Rightarrow> py_error + comp_style" where
  "UITextStyle_init env =
     (case build_font env UITextStyle_fields of
        Inl err \<Rightarrow> Inl err
      | Inr txt \<Rightarrow> Inr (apply_mods txt))"

text \<open>
  \<open>UIStyle\<close>; its attributes \<open>image\<close> and \<open>text\<close> are the fields \<open>image_comp\<close> and
  \<open>text_comp\<close>.
\<close>

record UIStyle =
  stack :: comp_style
  bg :: comp_style
  image_comp :: comp_style
  shape :: comp_style
  text_comp :: comp_style
  icon :: comp_style
  outline :: comp_style

definition UIStyle_init :: "py_env \<Rightarrow> py_error + UIStyle" where
  "UIStyle_init env =
     (case UITextStyle_init env of
        Inl err \<Rightarrow> Inl err
      | Inr txt \<Rightarrow>
          Inr \<lparr>stack = UIStackStyle_init, bg = UIBGStyle_init, image_comp = UIImageStyle_init,
               shape = UIShapeStyle_init, text_comp = txt, icon = UIIconStyle_init,
               outline = UIOutlineStyle_init\<rparr>)"

definition default_style :: "py_env \<Rightarrow> py_error + UIStyle" where
  "default_style env = UIStyle_init env"

definition default_hover_style :: "py_env \<Rightarrow> py_error + UIStyle" where
  "default_hover_style env =
     (case UIStyle_init env of
        Inl err \<Rightarrow> Inl err
      | Inr default_hover \<Rightarrow>
          Inr (default_hover\<lparr>bg := (bg default_hover)(''color'' \<mapsto> VTuple [VInt 32, VInt 32, VInt 32])\<rparr>))"

definition default_press_style :: "py_env \<Rightarrow> py_error + UIStyle" where
  "default_press_style env =
     (case UIStyle_init env of
        Inl err \<Rightarrow> Inl err
      | Inr default_press \<Rightarrow>
          Inr (default_press\<lparr>bg := (bg default_press)(''color'' \<mapsto> VTuple [VInt 17, VInt 17, VInt 17])\<rparr>))"

text \<open>
  \<open>getattr(style, comp_name)\<close> for the seven names of \<open>apply_style_properties\<close>, and the
  write back of the component that \<open>setattr\<close> has changed in place.
\<close>

definition get_comp :: "UIStyle \<Rightarrow> string \<Rightarrow> comp_style" where
  "get_comp sty comp_name =
     (if comp_name = ''stack'' then stack sty
      else if comp_name = ''bg'' then bg sty
      else if comp_name = ''image'' then image_comp sty
      else if comp_name = ''shape'' then shape sty
      else if comp_name = ''text'' then text_comp sty
      else if comp_name = ''icon'' then icon sty
      else outline sty)"

definition set_comp :: "UIStyle \<Rightarrow> string \<Rightarrow> comp_style \<Rightarrow> UIStyle" where
  "set_comp sty comp_name cobj =
     (if comp_name = ''stack'' then sty\<lparr>stack := cobj\<rparr>
      else if comp_name = ''bg'' then sty\<lparr>bg := cobj\<rparr>
      else if comp_name = ''image'' then sty\<lparr>image_comp := cobj\<rparr>
      else if comp_name = ''shape'' then sty\<lparr>shape := cobj\<rparr>
      else if comp_name = ''text'' then sty\<lparr>text_comp := cobj\<rparr>
      else if comp_name = ''icon'' then sty\<lparr>icon := cobj\<rparr>
      else sty\<lparr>outline := cobj\<rparr>)"

text \<open>
  A registered rule, \<open>UIStyleHolder\<close>. \<open>properties\<close> is a dictionary from component
  names to dictionaries; the inner ones are association lists in the order \<open>items()\<close>
  walks them.
\<close>

record UIStyleHolder =
  properties :: "string \<rightharpoonup> (string \<times> pyval) list"
  style_type :: string
  style_target :: string
  target_id :: string

text \<open>
  \<open>str.title\<close> on ASCII strings: a letter after a letter is lowered, any other letter
  is raised.
\<close>

definition is_cased :: "char \<Rightarrow> bool" where
  "is_cased c = (let n = (of_char c :: nat) in (65 \<le> n \<and> n \<le> 90) \<or> (97 \<le> n \<and> n \<le> 122))"

definition upper_char :: "char \<Rightarrow> char" where
  "upper_char c = (let n = (of_char c :: nat) in if 97 \<le> n \<and> n \<le> 122 then char_of (n - 32) else c)"

definition lower_char :: "char \<Rightarrow> char" where
  "lower_char c = (let n = (of_char c :: nat) in if 65 \<le> n \<and> n \<le> 90 then char_of (n + 32) else c)"

fun title_from :: "bool \<Rightarrow> string \<Rightarrow> string" where
  "title_from prev [] = []"
| "title_from prev (c # cs) =
     (if is_cased c then (if prev then lower_char c else upper_char c) # title_from True cs
      else c # title_from False cs)"

definition py_title :: "string \<Rightarrow> string" where
  "py_title s = title_from False s"

text \<open>The inner loop of \<open>apply_style_properties\<close> over the items of one component.\<close>

fun set_properties :: "string \<Rightarrow> (string \<times> pyval) list \<Rightarrow> comp_style \<Rightarrow> py_error + comp_style" where
  "set_properties comp_name [] cobj = Inr cobj"
| "set_properties comp_name ((name, v) # rest) cobj =
     (if cobj name = None
      then Inl (UIError (py_title comp_name @ '' style has no property '' @ [CHR 0x27] @ name
                         @ [CHR 0x27]))
      else set_properties comp_name rest (cobj(name \<mapsto> v)))"

fun apply_comps ::
  "string list \<Rightarrow> (string \<rightharpoonup> (string \<times> pyval) list) \<Rightarrow> UIStyle \<Rightarrow> py_error + UIStyle" where
  "apply_comps [] props sty = Inr sty"
| "apply_comps (comp_name # rest) props sty =
     (case props comp_name of
        None \<Rightarrow> apply_comps rest props sty
      | Some items \<Rightarrow>
          (case set_properties comp_name items (get_comp sty comp_name) of
             Inl err \<Rightarrow> Inl err
           | Inr cobj \<Rightarrow> apply_comps rest props (set_comp sty comp_name cobj)))"

definition apply_style_properties ::
  "py_env \<Rightarrow> (string \<rightharpoonup> (string \<times> pyval) list) \<Rightarrow> UIStyle \<Rightarrow> py_error + UIStyle" where
  "apply_style_properties env props sty =
     (case apply_comps [''stack'', ''bg'', ''image'', ''shape'', ''text'', ''icon'', ''outline'']
             props sty of
        Inl err \<Rightarrow> Inl err
      | Inr sty \<Rightarrow>
          (case build_font env (text_comp sty) of
             Inl err \<Rightarrow> Inl err
           | Inr txt \<Rightarrow> Inr (sty\<lparr>text_comp := txt\<rparr>)))"

text \<open>Applying a list of rules in order; the first exception ends it.\<close>

fun apply_holders :: "py_env \<Rightarrow> UIStyleHolder list \<Rightarrow> UIStyle \<Rightarrow> py_error + UIStyle" where
  "apply_holders env [] sty = Inr sty"
| "apply_holders env (h # hs) sty =
     (case apply_style_properties env (properties h) sty of
        Inl err \<Rightarrow> Inl err
      | Inr sty \<Rightarrow> apply_holders env hs sty)"

text \<open>
  What the cascade reads of an element. The keys of the dictionary
  \<open>{el_t: [] for el_t in el_types}\<close> keep the order of their first occurrence.
\<close>

record element_ident =
  element_types :: "string list"
  style_id :: string
  element_id :: string

definition dict_keys :: "string list \<Rightarrow> string list" where
  "dict_keys xs = rev (remdups (rev xs))"

text \<open>
  The collecting loop of \<open>get_style_of_type\<close> (lines 211 to 219). The accumulator is
  \<open>(el_type_styles, style_id_styles, el_id_styles)\<close>, the first as the association
  list of the dictionary. \<open>target_id in style_id\<close> is the substring test of Python
  strings.
\<close>

definition collect_holder ::
  "element_ident \<Rightarrow> string \<Rightarrow> UIStyleHolder \<Rightarrow>
   (string \<times> UIStyleHolder list) list \<times> UIStyleHolder list \<times> UIStyleHolder list \<Rightarrow>
   (string \<times> UIStyleHolder list) list \<times> UIStyleHolder list \<times> UIStyleHolder list" where
  "collect_holder el ty h acc =
     (case acc of (el_type_styles, style_id_styles, el_id_styles) \<Rightarrow>
        if style_type h \<noteq> ty then acc
        else if style_target h = ''element_type'' \<and> target_id h \<in> set (map fst el_type_styles)
        then (map (\<lambda>(k, hs). if k = target_id h then (k, hs @ [h]) else (k, hs)) el_type_styles,
              style_id_styles, el_id_styles)
        else if style_target h = ''style_id'' \<and> sublist (target_id h) (style_id el)
        then (el_type_styles, style_id_styles @ [h], el_id_styles)
        else if style_target h = ''element_id'' \<and> target_id h = element_id el
        then (el_type_styles, style_id_styles, el_id_styles @ [h])
        else acc)"

text \<open>
  \<open>UIStyles.get_style_of_type\<close>, with the class attribute \<open>styles\<close> as an argument.
  The argument \<open>type_\<close> is \<open>ty\<close>; a value outside the three cases of the \<open>match\<close>
  leaves \<open>style\<close> unbound. The baseline style is built first, and building it builds
  a font.
\<close>

definition get_style_of_type ::
  "py_env \<Rightarrow> UIStyleHolder list \<Rightarrow> element_ident \<Rightarrow> string \<Rightarrow> py_error + UIStyle" where
  "get_style_of_type env styles el ty =
     (let start = (if ty = ''normal'' then Some (default_style env)
                   else if ty = ''hover'' then Some (default_hover_style env)
                   else if ty = ''press'' then Some (default_press_style env)
                   else None);
          (el_type_styles, style_id_styles, el_id_styles) =
             fold (collect_holder el ty) styles
               (map (\<lambda>el_t. (el_t, [])) (dict_keys (element_types el)), [], [])
      in case start of
           None \<Rightarrow> Inl UnboundLocalError
         | Some (Inl err) \<Rightarrow> Inl err
         | Some (Inr sty) \<Rightarrow>
             (case apply_holders env (concat (map snd el_type_styles)) sty of
                Inl err \<Rightarrow> Inl err
              | Inr sty \<Rightarrow>
                  (case apply_holders env style_id_styles sty of
                     Inl err \<Rightarrow> Inl err
                   | Inr sty \<Rightarrow> apply_holders env el_id_styles sty)))"

record UIStyleGroup =
  sg_style :: UIStyle
  hover_style :: UIStyle
  press_style :: UIStyle

definition get_style_group ::
  "py_env \<Rightarrow> UIStyleHolder list \<Rightarrow> element_ident \<Rightarrow> py_error + UIStyleGroup" where
  "get_style_group env styles el =
     (case get_style_of_type env styles el ''normal'' of
        Inl err \<Rightarrow> Inl err
      | Inr n \<Rightarrow>
          (case get_style_of_type env styles el ''hover'' of
             Inl err \<Rightarrow> Inl err
           | Inr h \<Rightarrow>
               (case get_style_of_type env styles el ''press'' of
                  Inl err \<Rightarrow> Inl err
                | Inr p \<Rightarrow> Inr \<lparr>sg_style = n, hover_style = h, press_style = p\<rparr>)))"

text \<open>
  The names bound in the body of the class \<open>UIStyles\<close> of style.py (lines 178 to 239),
  and the lookup of an attribute on a class. The names every class inherits from
  \<open>object\<close> and \<open>type\<close> are not listed.
\<close>

definition UIStyles_class :: "string list" where
  "UIStyles_class =
     [''styles'', ''add_style'', ''add_styles'', ''get_style_group'', ''get_style_of_type'',
      ''apply_style_properties'']"

definition class_getattr :: "string list \<Rightarrow> string \<Rightarrow> py_error + string" where
  "class_getattr cls name = (if name \<in> set cls then Inr name else Inl (AttributeError name))"


text \<open>
  The call \<open>C.get_style_group(self)\<close> on a class \<open>C\<close>: the lookup of the attribute, then
  the call. The one function of this name in the sources is the class method of
  \<open>UIStyles\<close>.
\<close>

definition call_get_style_group ::
  "string list \<Rightarrow> py_env \<Rightarrow> UIStyleHolder list \<Rightarrow> element_ident \<Rightarrow> py_error + UIStyleGroup" where
  "call_get_style_group cls env styles el =
     (case class_getattr cls ''get_style_group'' of
        Inl err \<Rightarrow> Inl err
      | Inr m \<Rightarrow> get_style_group env styles el)"

text \<open>
  The identity and style setters of \<open>Element\<close> (lines 631 to 659), on the identity of
  the element and its style group. Each returns the element as the call leaves it and
  the exception, if one ends the call. The rendering hooks and \<open>set_dirty\<close> that
  \<open>set_style_group\<close> runs after the assignment have no part in the two fields.
\<close>

record styled_element =
  ident :: element_ident
  style_group :: UIStyleGroup
  style :: UIStyle

definition set_style_group :: "UIStyleGroup \<Rightarrow> styled_element \<Rightarrow> styled_element" where
  "set_style_group g e = e\<lparr>style_group := g, style := sg_style g\<rparr>"

definition set_style_id ::
  "py_env \<Rightarrow> UIStyleHolder list \<Rightarrow> string \<Rightarrow> styled_element \<Rightarrow> styled_element \<times> py_error option" where
  "set_style_id env styles sid e =
     (let e = e\<lparr>ident := (ident e)\<lparr>style_id := sid\<rparr>\<rparr> in
      case call_get_style_group UIStyles_class env styles (ident e) of
        Inl err \<Rightarrow> (e, Some err)
      | Inr g \<Rightarrow> (set_style_group g e, None))"

definition set_element_types ::
  "py_env \<Rightarrow> UIStyleHolder list \<Rightarrow> string list \<Rightarrow> styled_element \<Rightarrow> styled_element \<times> py_error option" where
  "set_element_types env styles tys e =
     (let e = e\<lparr>ident := (ident e)\<lparr>element_types := tys\<rparr>\<rparr> in
      case call_get_style_group UIStyles_class env styles (ident e) of
        Inl err \<Rightarrow> (e, Some err)
      | Inr g \<Rightarrow> (set_style_group g e, None))"


text \<open>
  \<open>has_attr\<close> holds of the attributes that \<open>__init__\<close> gives a component.
  \<open>valid_properties\<close> holds of the rules that \<open>apply_style_properties\<close> applies without
  an exception when the font constructors raise none (\<open>fonts_load\<close>): every property
  they name is an attribute of the component, and a \<open>font_size\<close> is a number.
  \<open>sets_bg_color\<close> is the value a rule leaves in \<open>bg.color\<close>, if it sets one;
  \<open>is_el_id_rule\<close> the test of the last branch of the collecting loop.
\<close>

definition comp_names :: "string list" where
  "comp_names = [''stack'', ''bg'', ''image'', ''shape'', ''text'', ''icon'', ''outline'']"

definition is_number :: "pyval \<Rightarrow> bool" where
  "is_number v = (case v of VInt n \<Rightarrow> True | VRat r \<Rightarrow> True | VBool b \<Rightarrow> True | _ \<Rightarrow> False)"

definition has_attr :: "string \<Rightarrow> string \<Rightarrow> bool" where
  "has_attr c n =
     (if c = ''stack'' then UIStackStyle_init n \<noteq> None
      else if c = ''bg'' then UIBGStyle_init n \<noteq> None
      else if c = ''image'' then UIImageStyle_init n \<noteq> None
      else if c = ''shape'' then UIShapeStyle_init n \<noteq> None
      else if c = ''text'' then n = ''font'' \<or> UITextStyle_fields n \<noteq> None
      else if c = ''icon'' then UIIconStyle_init n \<noteq> None
      else UIOutlineStyle_init n \<noteq> None)"

definition fonts_load :: "py_env \<Rightarrow> bool" where
  "fonts_load env =
     (\<forall>font_name n. pygame_Font env font_name n = None \<and> pygame_SysFont env font_name n = None)"

definition valid_items :: "string \<Rightarrow> (string \<times> pyval) list \<Rightarrow> bool" where
  "valid_items c items =
     list_all (\<lambda>(n, v). has_attr c n
                 \<and> (c = ''text'' \<and> n = ''font_size'' \<longrightarrow> is_number v)) items"

definition valid_properties :: "(string \<rightharpoonup> (string \<times> pyval) list) \<Rightarrow> bool" where
  "valid_properties props =
     list_all (\<lambda>c. case props c of None \<Rightarrow> True | Some items \<Rightarrow> valid_items c items) comp_names"

definition sets_bg_color :: "UIStyleHolder \<Rightarrow> pyval option" where
  "sets_bg_color h =
     (case properties h ''bg'' of None \<Rightarrow> None | Some items \<Rightarrow> map_of (rev items) ''color'')"

definition is_el_id_rule :: "element_ident \<Rightarrow> string \<Rightarrow> UIStyleHolder \<Rightarrow> bool" where
  "is_el_id_rule el ty h =
     (style_type h = ty \<and> style_target h = ''element_id'' \<and> target_id h = element_id el)"

text \<open>
  \<open>upd_comp\<close> is a component after the items a rule has for it are written into it;
  \<open>wf_style\<close> holds of a style whose components have the attributes of \<open>__init__\<close> and
  whose font size is a number.
\<close>

definition upd_comp :: "(string \<rightharpoonup> (string \<times> pyval) list) \<Rightarrow> string \<Rightarrow> comp_style \<Rightarrow> comp_style" where
  "upd_comp props c m = (case props c of None \<Rightarrow> m | Some items \<Rightarrow> m ++ map_of (rev items))"

definition font_ok :: "comp_style \<Rightarrow> bool" where
  "font_ok txt = (\<exists>v. txt ''font_size'' = Some v \<and> is_number v)"

definition wf_style :: "UIStyle \<Rightarrow> bool" where
  "wf_style sty =
     ((\<forall>c\<in>set comp_names. \<forall>n. (get_comp sty c n \<noteq> None) = has_attr c n) \<and>
      font_ok (text_comp sty))"

definition last_bg_color :: "UIStyleHolder list \<Rightarrow> pyval option \<Rightarrow> pyval option" where
  "last_bg_color hs col = fold (\<lambda>h col. case sets_bg_color h of None \<Rightarrow> col | Some c \<Rightarrow> Some c) hs col"

text \<open>
  A node of type \<open>button\<close> with the element id \<open>submit\<close>, and one rule on each.
\<close>

definition example_button :: element_ident where
  "example_button = \<lparr>element_types = [''element'', ''button''], style_id = ''fill'', element_id = ''submit''\<rparr>"

definition example_type_rule :: UIStyleHolder where
  "example_type_rule =
     \<lparr>properties = [''bg'' \<mapsto> [(''color'', VTuple [VInt 255, VInt 0, VInt 0])]],
      style_type = ''normal'', style_target = ''element_type'', target_id = ''button''\<rparr>"

definition example_id_rule :: UIStyleHolder where
  "example_id_rule =
     \<lparr>properties = [''bg'' \<mapsto> [(''color'', VTuple [VInt 0, VInt 255, VInt 0])]],
      style_type = ''normal'', style_target = ''element_id'', target_id = ''submit''\<rparr>"

text \<open>A library in which every font loads and \<open>int\<close> of a string raises \<open>ValueError\<close>.\<close>

definition example_env :: py_env where
  "example_env =
     \<lparr>pygame_Font = (\<lambda>font_name n. None), pygame_SysFont = (\<lambda>font_name n. None),
      int_str = (\<lambda>s. Inl ValueError), int_enum = (\<lambda>e. Inl TypeError)\<rparr>"

text \<open>
  A library in which the font file \<open>missing.ttf\<close> does not exist and a size of
  \<open>2 ^ 31\<close> or more overflows, and a rule on the element id \<open>submit\<close> that asks for
  that file.
\<close>

definition raising_env :: py_env where
  "raising_env =
     example_env\<lparr>pygame_Font := (\<lambda>font_name n.
        if font_name = VStr ''missing.ttf'' then Some FileNotFoundError
        else if 2 ^ 31 \<le> n then Some OverflowError else None)\<rparr>"

definition example_font_rule :: UIStyleHolder where
  "example_font_rule =
     \<lparr>properties = [''text'' \<mapsto> [(''sysfont'', VBool False), (''font_name'', VStr ''missing.ttf'')]],
      style_type = ''normal'', style_target = ''element_id'', target_id = ''submit''\<rparr>"

section \<open>Scene graph (element.py)\<close>

text \<open>
  Elements are objects that refer to one another: a parent, children, anchor targets
  and anchor observers. The scene is the list of all objects, and a reference is
  an index into it. \<open>parent = None\<close> marks the \<open>UIRoot\<close>. Of an element the record
  keeps what the geometry, the dirty flag, the anchors and the destruction read and
  write. Elements here are instances of the base class \<open>Element\<close>: the hooks
  (\<open>_refresh_stack\<close>, \<open>size_changed\<close>, \<open>position_changed\<close>, \<open>build\<close>, \<open>on_destroy\<close>) do
  nothing, there are no callbacks registered and no resizers. \<open>scroll_offset\<close> and
  \<open>render_offset\<close> are \<open>pygame.Vector2\<close>, pairs of floats; a \<open>pygame.Rect\<close> holds
  integers.
\<close>

datatype anchor_slot = ALeft | ARight | ATop | ABottom | ACenterx | ACentery

record UIAnchorData =
  target :: nat
  self_anchor :: anchor_slot
  target_anchor :: anchor_slot
  offset :: rat

record element =
  parent :: "nat option"
  children :: "nat list"
  relative_rect :: rect
  absolute_rect :: rect
  static_rect :: rect
  scroll_offset :: "rat \<times> rat"
  render_offset :: "rat \<times> rat"
  ignore_stack :: bool
  ignore_scroll :: bool
  can_destroy :: bool
  dirty :: bool
  anchors :: "anchor_slot \<Rightarrow> UIAnchorData option"
  anchor_observers :: "nat list"
  ghost_element :: "nat option"

type_synonym scene = "element list"

text \<open>
  \<open>Element.set_dirty\<close> (lines 525 to 531). A reference outside the scene is no
  object, and the call does nothing. \<open>UIRoot.set_dirty\<close> is not among the sources.
  Modelled from the spec: the root has a dirty flag like every node and no parent
  to pass the call on to.
\<close>

function set_dirty :: "scene \<Rightarrow> nat \<Rightarrow> bool \<Rightarrow> scene" where
  "set_dirty s i d =
     (if i \<ge> length s then s
      else if d = dirty (s ! i) then s
      else
        let s' = s[i := (s ! i)\<lparr>dirty := d\<rparr>] in
        case parent (s ! i) of
          None \<Rightarrow> s'
        | Some p \<Rightarrow> set_dirty s' p True)"
  by pat_completeness auto

text \<open>
  The call ends: every further call follows a change of a flag from clean to dirty,
  and the scene has finitely many clean nodes. This holds in any graph of parent
  references, also one with a cycle.
\<close>

definition clean_count :: "scene \<Rightarrow> nat" where
  "clean_count s = sum_list (map (\<lambda>e. if dirty e then 0 else (1::nat)) s)"

lemma clean_count_update:
  "i < length s \<Longrightarrow>
   clean_count (s[i := e]) =
     clean_count s + (if dirty e then 0 else 1) - (if dirty (s ! i) then 0 else 1)"
  by (simp add: clean_count_def map_update sum_list_update)

lemma clean_count_pos: "i < length s \<Longrightarrow> \<not> dirty (s ! i) \<Longrightarrow> 0 < clean_count s"
  using elem_le_sum_list[of i "map (\<lambda>e. if dirty e then 0 else (1::nat)) s"]
  by (simp add: clean_count_def)

termination set_dirty
proof (relation "measure (\<lambda>(s, i, d). clean_count s + (if d then 0 else 2))")
  show "wf (measure (\<lambda>(s, i, d). clean_count s + (if d then 0 else 2)))" by simp
next
  fix s :: scene and i :: nat and d :: bool and s' p
  assume i: "\<not> length s \<le> i" and d: "d \<noteq> dirty (s ! i)"
    and s': "s' = s[i := (s ! i)\<lparr>dirty := d\<rparr>]"
  have il: "i < length s" using i by simp
  show "((s', p, True), s, i, d) \<in> measure (\<lambda>(s, i, d). clean_count s + (if d then 0 else 2))"
  proof (cases d)
    case True
    with d have "\<not> dirty (s ! i)" by simp
    from clean_count_pos[OF il this] True d s' show ?thesis
      by (simp add: clean_count_update[OF il])
  next
    case False
    with d s' show ?thesis by (simp add: clean_count_update[OF il])
  qed
qed

declare set_dirty.simps [simp del]

text \<open>
  The ancestors of a node, the scenes whose parent references are objects, and the
  invariant of the data model: the parent of a dirty node is dirty.
\<close>

inductive ancestor :: "scene \<Rightarrow> nat \<Rightarrow> nat \<Rightarrow> bool" where
  ancestor_parent: "i < length s \<Longrightarrow> parent (s ! i) = Some p \<Longrightarrow> ancestor s p i"
| ancestor_step: "i < length s \<Longrightarrow> parent (s ! i) = Some p \<Longrightarrow> ancestor s a p \<Longrightarrow> ancestor s a i"

definition parents_ok :: "scene \<Rightarrow> bool" where
  "parents_ok s = (\<forall>i<length s. \<forall>p. parent (s ! i) = Some p \<longrightarrow> p < length s)"

definition dirty_inv :: "scene \<Rightarrow> bool" where
  "dirty_inv s = (\<forall>i<length s. \<forall>p. dirty (s ! i) \<longrightarrow> parent (s ! i) = Some p \<longrightarrow> dirty (s ! p))"

text \<open>
  A plain element with a parent, and three nodes in a chain: the root, a dirty node
  under it, and a clean node under that one.
\<close>

definition plain_element :: "nat option \<Rightarrow> bool \<Rightarrow> element" where
  "plain_element p d =
     \<lparr>parent = p, children = [],
      relative_rect = \<lparr>left = 0, top = 0, width = 10, height = 10\<rparr>,
      absolute_rect = \<lparr>left = 0, top = 0, width = 10, height = 10\<rparr>,
      static_rect = \<lparr>left = 0, top = 0, width = 10, height = 10\<rparr>,
      scroll_offset = (0, 0), render_offset = (0, 0), ignore_stack = False,
      ignore_scroll = False, can_destroy = True, dirty = d, anchors = (\<lambda>a. None),
      anchor_observers = [], ghost_element = None\<rparr>"

definition dirty_chain :: scene where
  "dirty_chain = [plain_element None False, plain_element (Some 0) True, plain_element (Some 1) False]"

text \<open>
  A node whose flag contradicts the invariant, and a chain of three clean nodes.
\<close>

definition broken :: "scene \<Rightarrow> nat \<Rightarrow> bool" where
  "broken s j = (j < length s \<and> dirty (s ! j) \<and> (\<exists>p. parent (s ! j) = Some p \<and> \<not> dirty (s ! p)))"

definition clean_chain :: scene where
  "clean_chain = [plain_element None False, plain_element (Some 0) False, plain_element (Some 1) False]"


text \<open>
  \<open>Element.get_absolute_topleft\<close> (lines 277 to 279) walks up the parent references.
  The fuel bounds the depth of the recursion; \<open>None\<close> is a call that does not return
  (a cycle of parents exhausts Python's stack) or a reference that is no object.
  \<open>rt\<close> is \<open>self.manager.root\<close>. \<open>UIRoot.get_absolute_topleft\<close> is not among the
  sources; the root is taken to answer with the top-left of its own \<open>absolute_rect\<close>.
\<close>

fun get_absolute_topleft :: "nat \<Rightarrow> nat \<Rightarrow> scene \<Rightarrow> nat \<Rightarrow> (rat \<times> rat) option" where
  "get_absolute_topleft 0 rt s i = None"
| "get_absolute_topleft (Suc n) rt s i =
     (if i \<ge> length s then None
      else
        case parent (s ! i) of
          None \<Rightarrow> Some (of_int (left (absolute_rect (s ! i))), of_int (top (absolute_rect (s ! i))))
        | Some p \<Rightarrow>
            (case get_absolute_topleft n rt s p of
               None \<Rightarrow> None
             | Some (px, py) \<Rightarrow>
                 let sc = (if ignore_scroll (s ! i) then scroll_offset (s ! rt)
                           else scroll_offset (s ! p))
                 in Some (px + of_int (left (relative_rect (s ! i))) - fst sc,
                          py + of_int (top (relative_rect (s ! i))) - snd sc)))"

text \<open>A loop over a list of references in which every step may fail to return.\<close>

fun fold_option :: "('a \<Rightarrow> 's \<Rightarrow> 's option) \<Rightarrow> 'a list \<Rightarrow> 's \<Rightarrow> 's option" where
  "fold_option f [] s = Some s"
| "fold_option f (x # xs) s = (case f x s of None \<Rightarrow> None | Some s' \<Rightarrow> fold_option f xs s')"

text \<open>
  \<open>Element._update_absolute_rect_pos\<close> (lines 857 to 862): the top-left of
  \<open>absolute_rect\<close> becomes \<open>get_absolute_topleft()\<close>, truncated to integers by the
  \<open>Rect\<close>; then the children are updated, then the node is marked dirty.
\<close>

fun update_absolute_rect_pos :: "nat \<Rightarrow> nat \<Rightarrow> scene \<Rightarrow> nat \<Rightarrow> scene option" where
  "update_absolute_rect_pos 0 rt s i = None"
| "update_absolute_rect_pos (Suc n) rt s i =
     (if i \<ge> length s then None
      else
        case get_absolute_topleft n rt s i of
          None \<Rightarrow> None
        | Some (x, y) \<Rightarrow>
            let e = s ! i;
                s1 = s[i := e\<lparr>absolute_rect := (absolute_rect e)\<lparr>left := py_int x, top := py_int y\<rparr>,
                             static_rect := (static_rect e)\<lparr>left := 0, top := 0\<rparr>\<rparr>]
            in case fold_option (\<lambda>child s. update_absolute_rect_pos n rt s child) (children e) s1 of
                 None \<Rightarrow> None
               | Some s2 \<Rightarrow> Some (set_dirty s2 i True))"



text \<open>
  Two scenes that agree on what \<open>get_absolute_topleft\<close> reads, and a node whose
  \<open>absolute_rect\<close> has the top-left that \<open>get_absolute_topleft\<close> gives.
\<close>

definition same_layout :: "scene \<Rightarrow> scene \<Rightarrow> bool" where
  "same_layout s s' =
     (length s' = length s \<and>
      (\<forall>j. parent (s' ! j) = parent (s ! j) \<and> children (s' ! j) = children (s ! j)
         \<and> relative_rect (s' ! j) = relative_rect (s ! j)
         \<and> scroll_offset (s' ! j) = scroll_offset (s ! j)
         \<and> ignore_scroll (s' ! j) = ignore_scroll (s ! j)
         \<and> (parent (s ! j) = None \<longrightarrow> absolute_rect (s' ! j) = absolute_rect (s ! j))))"



section \<open>Hit-testing (interact.py)\<close>

text \<open>
  What \<open>UIInteract.raycast\<close> reads of an element: its identity, its
  \<open>absolute_rect\<close>, its \<open>z_index\<close>, \<open>status.visible\<close>, \<open>ignore_raycast\<close> and
  its children, in insertion order.  The elements reached from the start container
  form a tree; the way upward (\<open>start_parent.parent\<close>, its parent, and so on, up to
  the root whose parent is \<open>None\<close>) is the list of the ancestors.
\<close>

datatype hit_node = HitNode
  (rc_id: nat) (rc_rect: rect) (rc_z_index: int) (rc_visible: bool) (rc_ignore_raycast: bool)
  (rc_children: "hit_node list")

text \<open>\<open>pygame.Rect.collidepoint\<close>: the right and the bottom edge are outside.\<close>

definition collidepoint :: "rect \<Rightarrow> int \<times> int \<Rightarrow> bool" where
  "collidepoint r p =
     (left r \<le> fst p \<and> fst p < left r + width r \<and> top r \<le> snd p \<and> snd p < top r + height r)"

text \<open>\<open>reversed(sorted(start_parent.children, key=lambda el: el.z_index))\<close>; Python's
  \<open>sorted\<close> is stable, as \<open>sort_key\<close> is.\<close>

definition children_by_z :: "hit_node \<Rightarrow> hit_node list" where
  "children_by_z start_parent = rev (sort_key rc_z_index (rc_children start_parent))"

lemma size_list_insort_key:
  "size_list f (insort_key k x xs) = size_list f (x # xs)"
  by (induction xs) simp_all

lemma size_list_sort_key:
  "size_list f (sort_key k xs) = size_list f xs"
  by (induction xs) (simp_all add: size_list_insort_key)

lemma size_list_rev:
  "size_list f (rev xs) = size_list f xs"
  by (induction xs) simp_all

lemma size_rc_children:
  "size_list size (rc_children n) < size n"
  by (cases n) simp

text \<open>
  The call \<open>self.raycast(position, rev_child)\<close> of the loop, where no element is
  tabbed and \<open>can_recurse_above\<close> is \<open>False\<close>, and the loop over the sorted children.
  An element defines neither \<open>__bool__\<close> nor \<open>__len__\<close>, so \<open>if res\<close> asks whether the
  call returned an element.
\<close>

function raycast_node :: "int \<times> int \<Rightarrow> hit_node \<Rightarrow> hit_node option"
  and raycast_loop :: "int \<times> int \<Rightarrow> hit_node list \<Rightarrow> hit_node option" where
  "raycast_node position start_parent =
     (if \<not> rc_visible start_parent then None
      else raycast_loop position (rev (sort_key rc_z_index (rc_children start_parent))))"
| "raycast_loop position [] = None"
| "raycast_loop position (rev_child # rest) =
     (if \<not> collidepoint (rc_rect rev_child) position \<or> \<not> rc_visible rev_child
         \<or> rc_ignore_raycast rev_child
      then raycast_loop position rest
      else if length (rc_children rev_child) > 0
      then (case raycast_node position rev_child of
              Some res \<Rightarrow> if rc_visible res then Some res else Some rev_child
            | None \<Rightarrow> Some rev_child)
      else Some rev_child)"
  by pat_completeness auto

termination
  by (relation "measure (\<lambda>x. case x of Inl (p, n) \<Rightarrow> size n | Inr (p, cs) \<Rightarrow> size_list size cs)")
     (simp_all add: size_list_rev size_list_sort_key size_rc_children)

text \<open>
  \<open>raycast(position, start_parent, can_recurse_above)\<close>.  The first argument is
  \<open>manager.navigation.tabbed_element\<close>; the list is \<open>start_parent\<close> followed by its
  ancestors, the empty list is \<open>start_parent = None\<close>.  Falling off the end of the
  function returns \<open>None\<close>.
\<close>

fun raycast :: "hit_node option \<Rightarrow> int \<times> int \<Rightarrow> hit_node list \<Rightarrow> bool \<Rightarrow> hit_node option" where
  "raycast (Some tabbed_element) position chain can_recurse_above = Some tabbed_element"
| "raycast None position [] can_recurse_above = None"
| "raycast None position (start_parent # ancestors) can_recurse_above =
     (if \<not> rc_visible start_parent then None
      else if (\<not> collidepoint (rc_rect start_parent) position \<or> rc_ignore_raycast start_parent)
              \<and> can_recurse_above
      then raycast None position ancestors True
      else (case raycast_loop position (children_by_z start_parent) of
              Some res \<Rightarrow> Some res
            | None \<Rightarrow> if can_recurse_above then raycast None position ancestors True else None))"

text \<open>
  The words of the specification: a child qualifies when its absolute rect contains
  the point, it is visible and it does not opt out of hit-testing; the hit below a
  qualifying child is found by descending, at every level, into the first qualifying
  child in descending z order, until no child qualifies.
\<close>

definition qualifies :: "int \<times> int \<Rightarrow> hit_node \<Rightarrow> bool" where
  "qualifies p c = (collidepoint (rc_rect c) p \<and> rc_visible c \<and> \<not> rc_ignore_raycast c)"

inductive deepest_hit :: "int \<times> int \<Rightarrow> hit_node \<Rightarrow> hit_node \<Rightarrow> bool" where
  deepest_here: "find (qualifies p) (children_by_z c) = None \<Longrightarrow> deepest_hit p c c"
| deepest_below: "find (qualifies p) (children_by_z c) = Some d \<Longrightarrow> deepest_hit p d r
                  \<Longrightarrow> deepest_hit p c r"

text \<open>
  A container 100 x 100 at the origin with two overlapping children without
  children of their own, the first with z-index 0 and the second with z-index 1.
\<close>

definition hit_back :: hit_node where
  "hit_back = HitNode 1 \<lparr>left = 10, top = 10, width = 50, height = 50\<rparr> 0 True False []"

definition hit_front :: hit_node where
  "hit_front = HitNode 2 \<lparr>left = 30, top = 30, width = 50, height = 50\<rparr> 1 True False []"

definition hit_container :: "bool \<Rightarrow> hit_node" where
  "hit_container vis =
     HitNode 0 \<lparr>left = 0, top = 0, width = 100, height = 100\<rparr> 0 vis False [hit_back, hit_front]"

text \<open>The same two children in a container of 40 x 40, which they overhang.\<close>

definition hit_small :: hit_node where
  "hit_small =
     HitNode 0 \<lparr>left = 0, top = 0, width = 40, height = 40\<rparr> 0 True False [hit_back, hit_front]"


section \<open>The press state machine (interact.py)\<close>

text \<open>
  Modelled from the spec: \<open>UIStatus.invoke_callback\<close>, \<open>UIStatus.invoke_callbacks\<close> and
  \<open>events._post_base_event\<close> are not among the sources. A callback that fires and an
  event that is posted are recorded in a log, in the order of the calls, with the id
  of the element; \<open>invoke_callbacks\<close> fires the callbacks it names from left to right.
\<close>

datatype emission = Callback string nat | Event string nat



text \<open>
  What one frame gives to \<open>_logic\<close>: the snapshot of \<open>UIState\<close>, the tabbed element of
  the navigation, and \<open>manager._last_rendered\<close> as the last rendered element followed
  by its ancestors. The geometry of text (\<open>common.text_wrap_str\<close>,
  \<open>common.text_click_idx\<close>, \<open>common.text_select_rects\<close>) rests on font metrics; its
  outcome is part of the frame: how many times the selection block (lines 34 to 62)
  fires \<open>on_text_selection_change\<close>, and what \<open>_text_select_start_press\<close> finds at the
  pointer (\<open>None\<close>: the text of the element cannot be selected; \<open>Some False\<close>: no
  character found; \<open>Some True\<close>: a selection starts).
\<close>

record frame =
  mouse_pos :: "int \<times> int"
  mouse_left :: bool
  mouse_right :: bool
  space_pressed :: bool
  tabbed_element :: "hit_node option"
  last_rendered :: "hit_node list option"
  selection_changes :: nat
  text_click :: "bool option"




















definition press_callbacks :: "emission list \<Rightarrow> emission list" where
  "press_callbacks es =
     filter (\<lambda>e. case e of
                   Callback name n \<Rightarrow> name \<in> set [''on_start_press'', ''on_stop_press'', ''on_click'',
                                                     ''on_select'', ''on_deselect'']
                 | Event name n \<Rightarrow> False) es"

definition press_events :: "emission list \<Rightarrow> emission list" where
  "press_events es =
     filter (\<lambda>e. case e of
                   Event name n \<Rightarrow> name \<in> set [''START_PRESS'', ''STOP_PRESS'', ''CLICK'',
                                                  ''SELECT'', ''DESELECT'']
                 | Callback name n \<Rightarrow> False) es"





section \<open>Anchors (element.py)\<close>

text \<open>
  The attributes of a \<open>pygame.Rect\<close> that an anchor reads. The centre is
  \<open>x + w / 2\<close> in C integers, a division that truncates.
\<close>

definition c_div2 :: "int \<Rightarrow> int" where
  "c_div2 w = (if w < 0 then - ((- w) div 2) else w div 2)"

definition rect_attr :: "rect \<Rightarrow> anchor_slot \<Rightarrow> int" where
  "rect_attr r a =
     (case a of
        ALeft \<Rightarrow> left r
      | ARight \<Rightarrow> left r + width r
      | ATop \<Rightarrow> top r
      | ABottom \<Rightarrow> top r + height r
      | ACenterx \<Rightarrow> left r + c_div2 (width r)
      | ACentery \<Rightarrow> top r + c_div2 (height r))"

text \<open>
  \<open>getattr(ad.target.absolute_rect, ad.target_anchor) + ad.offset\<close> for the anchor in
  a slot of a node; \<open>None\<close> when the slot is empty or the target is no object.
\<close>

definition anchor_value :: "scene \<Rightarrow> element \<Rightarrow> anchor_slot \<Rightarrow> rat option" where
  "anchor_value s e a =
     (case anchors e a of
        None \<Rightarrow> None
      | Some ad \<Rightarrow>
          if target ad < length s
          then Some (of_int (rect_attr (absolute_rect (s ! target ad)) (target_anchor ad)) + offset ad)
          else None)"

text \<open>
  One axis of \<open>_apply_anchors\<close> (lines 920 to 940 and 941 to 961): from the rectangle's
  near edge and extent on the axis and the values of the centre, near and far anchors,
  the near edge and the extent of \<open>temp_r\<close>. Assigning to an attribute of a \<open>Rect\<close>
  truncates.
\<close>

definition anchor_axis :: "int \<Rightarrow> int \<Rightarrow> rat option \<Rightarrow> rat option \<Rightarrow> rat option \<Rightarrow> int \<times> int" where
  "anchor_axis near extent centre lo hi =
     (case centre of
        Some c \<Rightarrow> (py_int c - c_div2 extent, extent)
      | None \<Rightarrow>
          (let (l, r) = (case (lo, hi) of
                           (Some l, None) \<Rightarrow> (l, l + of_int extent)
                         | (None, Some r) \<Rightarrow> (r - of_int extent, r)
                         | (None, None) \<Rightarrow> (of_int near, of_int (near + extent))
                         | (Some l, Some r) \<Rightarrow> (l, r));
               r = (if r \<le> l then l + 1 else r)
           in (py_int l, py_int (r - l))))"

text \<open>
  \<open>_apply_anchors\<close> (lines 916 to 963), \<open>set_size\<close> (lines 588 to 609) and
  \<open>set_absolute_pos\<close> (lines 555 to 570) as \<open>_apply_anchors\<close> calls them, with
  \<open>apply_anchors=False\<close>. Each setter hands the change on to the anchor observers of
  the node, whose \<open>_apply_anchors\<close> calls the setters again: the fuel bounds the depth
  of these calls, and \<open>None\<close> is a call that does not return (a cycle of anchors) or
  that meets a reference that is no object. The root has no parent to ask in
  \<open>set_absolute_pos\<close>; anchors on the root are not modelled.
\<close>

function apply_anchors :: "nat \<Rightarrow> nat \<Rightarrow> scene \<Rightarrow> nat \<Rightarrow> scene option"
  and set_size :: "nat \<Rightarrow> nat \<Rightarrow> scene \<Rightarrow> nat \<Rightarrow> int \<times> int \<Rightarrow> scene option"
  and set_absolute_pos :: "nat \<Rightarrow> nat \<Rightarrow> scene \<Rightarrow> nat \<Rightarrow> int \<times> int \<Rightarrow> scene option" where
  "apply_anchors 0 rt s i = None"
| "apply_anchors (Suc n) rt s i =
     (if i \<ge> length s then None
      else
        let e = s ! i in
        if \<forall>a\<in>set [ALeft, ARight, ATop, ABottom, ACenterx, ACentery]. anchors e a = None then Some s
        else if \<exists>a\<in>set [ALeft, ARight, ATop, ABottom, ACenterx, ACentery].
                  anchors e a \<noteq> None \<and> anchor_value s e a = None then None
        else
          let r = absolute_rect e;
              (x, w) = anchor_axis (left r) (width r) (anchor_value s e ACenterx)
                         (anchor_value s e ALeft) (anchor_value s e ARight);
              (y, h) = anchor_axis (top r) (height r) (anchor_value s e ACentery)
                         (anchor_value s e ATop) (anchor_value s e ABottom)
          in case set_size n rt s i (w, h) of
               None \<Rightarrow> None
             | Some s' \<Rightarrow> set_absolute_pos n rt s' i (x, y))"
| "set_size 0 rt s i sz = None"
| "set_size (Suc n) rt s i sz =
     (if i \<ge> length s then None
      else
        let e = s ! i in
        if (width (relative_rect e), height (relative_rect e)) = sz then Some s
        else
          let w = max 1 (fst sz); h = max 1 (snd sz);
              s1 = s[i := e\<lparr>relative_rect := (relative_rect e)\<lparr>width := w, height := h\<rparr>,
                           absolute_rect := (absolute_rect e)\<lparr>width := w, height := h\<rparr>,
                           static_rect := (static_rect e)\<lparr>width := w, height := h\<rparr>\<rparr>];
              s2 = set_dirty s1 i True
          in fold_option (\<lambda>obs s. apply_anchors n rt s obs) (anchor_observers e) s2)"
| "set_absolute_pos 0 rt s i position = None"
| "set_absolute_pos (Suc n) rt s i position =
     (if i \<ge> length s then None
      else
        let e = s ! i in
        case parent e of
          None \<Rightarrow> None
        | Some p \<Rightarrow>
            (case get_absolute_topleft n rt s p of
               None \<Rightarrow> None
             | Some (px, py) \<Rightarrow>
                 let x = py_int (of_int (fst position) - px);
                     y = py_int (of_int (snd position) - py)
                 in if (left (relative_rect e), top (relative_rect e)) = (x, y) then Some s
                    else
                      (case update_absolute_rect_pos n rt
                              (s[i := e\<lparr>relative_rect := (relative_rect e)\<lparr>left := x, top := y\<rparr>\<rparr>]) i of
                         None \<Rightarrow> None
                       | Some s2 \<Rightarrow>
                           fold_option (\<lambda>obs s. apply_anchors n rt s obs) (anchor_observers e) s2)))"
  by pat_completeness auto

termination
  by (relation "measure (\<lambda>x. case x of
                     Inl (n, rt, s, i) \<Rightarrow> n
                   | Inr (Inl (n, rt, s, i, sz)) \<Rightarrow> n
                   | Inr (Inr (n, rt, s, i, position)) \<Rightarrow> n)")
     simp_all

text \<open>
  A root of 200 x 200, under it a container scrolled down by 30, and in the container
  a target and a node whose left edge is anchored, with the offset 5, to the right
  edge of the target. Every \<open>absolute_rect\<close> is what \<open>_update_absolute_rect_pos\<close> gives.
\<close>

definition anchor_scene :: scene where
  "anchor_scene =
     [(plain_element None False)
        \<lparr>children := [1],
         relative_rect := \<lparr>left = 0, top = 0, width = 200, height = 200\<rparr>,
         absolute_rect := \<lparr>left = 0, top = 0, width = 200, height = 200\<rparr>\<rparr>,
      (plain_element (Some 0) False)
        \<lparr>children := [2, 3],
         relative_rect := \<lparr>left = 0, top = 0, width = 200, height = 200\<rparr>,
         absolute_rect := \<lparr>left = 0, top = 0, width = 200, height = 200\<rparr>,
         scroll_offset := (0, 30)\<rparr>,
      (plain_element (Some 1) False)
        \<lparr>relative_rect := \<lparr>left = 10, top = 40, width = 50, height = 20\<rparr>,
         absolute_rect := \<lparr>left = 10, top = 10, width = 50, height = 20\<rparr>,
         anchor_observers := [3]\<rparr>,
      (plain_element (Some 1) False)
        \<lparr>relative_rect := \<lparr>left = 0, top = 100, width = 30, height = 10\<rparr>,
         absolute_rect := \<lparr>left = 0, top = 70, width = 30, height = 10\<rparr>,
         ignore_stack := True,
         anchors := (\<lambda>a. None)(ALeft := Some \<lparr>target = 2, self_anchor = ALeft,
                                                target_anchor = ARight, offset = 5\<rparr>)\<rparr>]"

section \<open>Properties of the stack layout\<close>

text \<open>
  What the measure loop of \<open>VStack\<close> adds up when no counted child fills the main
  axis: every counted child at an index above 0 brings one spacing, whether or not
  a counted child came before it.
\<close>

lemma vstack_measure_fixed:
  "\<forall>c\<in>set cs. stack_counted c \<longrightarrow> \<not> fill_y (sc_style c) \<Longrightarrow> 0 < i \<Longrightarrow>
   \<exists>tx'. vstack_measure sp i cs (tx, ty, num, fills) =
     (tx', ty + sum_list (map (\<lambda>c. height (sc_rect c)) (filter stack_counted cs))
             + sp * int (length (filter stack_counted cs)),
      num + length (filter stack_counted cs), fills)"
proof (induction cs arbitrary: i tx ty num)
  case Nil
  then show ?case by simp
next
  case (Cons c cs)
  show ?case
  proof (cases "stack_counted c")
    case False
    then have skip: "sc_ignore_stack c \<or> \<not> sc_visible c" by (simp add: stack_counted_def)
    from Cons.IH[of "Suc i" tx ty num] Cons.prems skip False show ?thesis by simp
  next
    case True
    then have cnt: "\<not> (sc_ignore_stack c \<or> \<not> sc_visible c)" by (simp add: stack_counted_def)
    from True Cons.prems have nf: "\<not> fill_y (sc_style c)" by simp
    let ?tx = "if width (sc_rect c) > tx \<and> \<not> fill_x (sc_style c) then width (sc_rect c) else tx"
    from Cons.IH[of "Suc i" ?tx "ty + sp + height (sc_rect c)" "num + 1"] Cons.prems
    obtain tx' where "vstack_measure sp (Suc i) cs (?tx, ty + sp + height (sc_rect c), num + 1, fills) =
       (tx', ty + sp + height (sc_rect c) + sum_list (map (\<lambda>c. height (sc_rect c)) (filter stack_counted cs))
             + sp * int (length (filter stack_counted cs)),
        num + 1 + length (filter stack_counted cs), fills)" by auto
    with cnt nf True Cons.prems(2) show ?thesis
      by (simp add: Let_def algebra_simps)
  qed
qed

lemma vstack_measure_fixed_0:
  assumes "\<forall>c\<in>set cs. stack_counted c \<longrightarrow> \<not> fill_y (sc_style c)"
  shows "\<exists>tx'. vstack_measure sp 0 cs (tx, ty, num, fills) =
     (tx', ty + sum_list (map (\<lambda>c. height (sc_rect c)) (filter stack_counted cs))
             + sp * int (length (filter stack_counted (tl cs))),
      num + length (filter stack_counted cs), fills)"
proof (cases cs)
  case Nil
  then show ?thesis by simp
next
  case (Cons c rest)
  with assms have r: "\<forall>c\<in>set rest. stack_counted c \<longrightarrow> \<not> fill_y (sc_style c)" by simp
  show ?thesis
  proof (cases "stack_counted c")
    case False
    then have skip: "sc_ignore_stack c \<or> \<not> sc_visible c" by (simp add: stack_counted_def)
    from vstack_measure_fixed[OF r, of "Suc 0" sp tx ty num fills] skip False Cons show ?thesis by simp
  next
    case True
    then have cnt: "\<not> (sc_ignore_stack c \<or> \<not> sc_visible c)" by (simp add: stack_counted_def)
    from True assms Cons have nf: "\<not> fill_y (sc_style c)" by simp
    let ?tx = "if width (sc_rect c) > tx \<and> \<not> fill_x (sc_style c) then width (sc_rect c) else tx"
    from vstack_measure_fixed[OF r, of "Suc 0" sp ?tx "ty + height (sc_rect c)" "num + 1" fills]
    obtain tx' where "vstack_measure sp (Suc 0) rest (?tx, ty + height (sc_rect c), num + 1, fills) =
       (tx', ty + height (sc_rect c) + sum_list (map (\<lambda>c. height (sc_rect c)) (filter stack_counted rest))
             + sp * int (length (filter stack_counted rest)),
        num + 1 + length (filter stack_counted rest), fills)" by auto
    with cnt nf True Cons show ?thesis by (simp add: Let_def algebra_simps)
  qed
qed

lemma refresh_scrollbars_content_y:
  "content_y (fst (refresh_scrollbars st)) = content_y st"
  by (simp add: refresh_scrollbars_def vscrollbar_refresh_def hscrollbar_refresh_def Let_def)

lemma stack_resize_content_y: "content_y (stack_resize sz st) = content_y st"
  by (simp add: stack_resize_def)

lemma VStack_content_y_fixed:
  assumes run: "sk_running st" "sk_done st"
    and nox: "\<not> shrink_x (sk_style st)" "\<not> grow_x (sk_style st)"
    and fixed: "\<forall>c\<in>set (sk_children st). stack_counted c \<longrightarrow> \<not> fill_y (sc_style c)"
  shows "map_option content_y (VStack_refresh_stack (Suc n) st) =
     Some (sum_list (map (\<lambda>c. height (sc_rect c)) (filter stack_counted (sk_children st)))
        + spacing (sk_style st) * int (length (filter stack_counted (tl (sk_children st))))
        + 2 * padding (sk_style st))"
proof -
  from vstack_measure_fixed_0[OF fixed, of "spacing (sk_style st)" 0 "padding (sk_style st)" 0 "[]"]
  obtain tx' where m: "vstack_measure (spacing (sk_style st)) 0 (sk_children st) (0, padding (sk_style st), 0, []) =
     (tx', padding (sk_style st) + sum_list (map (\<lambda>c. height (sc_rect c)) (filter stack_counted (sk_children st)))
             + spacing (sk_style st) * int (length (filter stack_counted (tl (sk_children st)))),
      0 + length (filter stack_counted (sk_children st)), [])" by blast
  show ?thesis
    using run nox m
    by (simp add: Let_def case_prod_beta stack_resize_content_y refresh_scrollbars_content_y)
qed

lemma vstack_share_nonneg: "0 \<le> vstack_space_for_each_child st old_tot scr n"
  by (simp add: vstack_space_for_each_child_def Let_def)

text \<open>
  C1. The claim: a vertical stack whose counted children are N children of fixed
  heights gets \<open>content_y\<close> = sum of the heights + spacing * (N - 1) + 2 * padding.
  The measure loop adds a spacing for every counted child whose index in
  \<open>children\<close> is above 0 (\<open>if i > 0\<close>, line 115), and the two scrollbars hold the
  indices 0 and 1. For the stack of \<open>UIStack.__init__\<close> with one child of height 50,
  spacing 5 and padding 7 the pass gives 69, the claim 64.
\<close>

theorem C1_vstack_content_height_off_by_one_spacing:
  "map_option content_y
     (VStack_refresh_stack 1 (example_stack 200 200 [example_child 100 50 False False])) = Some 69
   \<and> (69::int) \<noteq> 50 + 5 * (1 - 1) + 2 * 7"
  by code_simp

text \<open>
  C8. The claim: in both directions the space left for the fill children is clamped
  at zero before it is divided. \<open>VStack\<close> does so, \<open>HStack\<close> does not: in a
  horizontal stack of width 100 with a fixed child of width 200 and one fill child,
  the measure loop gives 212, the share handed to \<open>set_size\<close> is -119, and
  \<open>set_size\<close> then clamps the child's width to 1.
\<close>

theorem C8_hstack_fill_share_negative:
  "hstack_measure 5 0
     (sk_children (example_stack 100 50
        [example_child 200 30 False False, example_child 10 30 True False])) (7, 0, 0, [])
     = (212, 30, 2, [3])
   \<and> hstack_space_for_each_child
       (example_stack 100 50 [example_child 200 30 False False, example_child 10 30 True False])
       (212 + 7) 0 1 = - 119
   \<and> map_option (\<lambda>st'. width (sc_rect (sk_children st' ! 3)))
       (HStack_refresh_stack 1
          (example_stack 100 50 [example_child 200 30 False False, example_child 10 30 True False]))
     = Some 1"
  by code_simp

section \<open>Properties of the style cascade\<close>

text \<open>
  When a rule is applied without an exception, each component holds the items the
  rule has for it, the last written winning.
\<close>

lemma set_properties_Inr:
  "set_properties c items cobj = Inr cobj' \<Longrightarrow> cobj' = cobj ++ map_of (rev items)"
proof (induction items arbitrary: cobj)
  case Nil
  then show ?case by simp
next
  case (Cons a items)
  obtain n v where a: "a = (n, v)" by (cases a)
  from Cons.prems a have step: "set_properties c items (cobj(n \<mapsto> v)) = Inr cobj'"
    by (simp split: if_splits)
  from Cons.IH[OF step] have "cobj' = cobj(n \<mapsto> v) ++ map_of (rev items)" .
  also have "cobj(n \<mapsto> v) = cobj ++ [n \<mapsto> v]" by simp
  also have "(cobj ++ [n \<mapsto> v]) ++ map_of (rev items) = cobj ++ map_of (rev (a # items))"
    using a by (simp add: map_of_append)
  finally show ?case .
qed

lemma set_properties_ok:
  "\<forall>(n, v)\<in>set items. n \<in> dom cobj \<Longrightarrow> \<exists>cobj'. set_properties c items cobj = Inr cobj'"
proof (induction items arbitrary: cobj)
  case Nil
  then show ?case by simp
next
  case (Cons a items)
  obtain n v where a: "a = (n, v)" by (cases a)
  from Cons.prems a have n: "cobj n \<noteq> None" by auto
  from Cons.prems have "\<forall>(n', v')\<in>set items. n' \<in> dom (cobj(n \<mapsto> v))" by auto
  from Cons.IH[OF this] obtain cobj' where "set_properties c items (cobj(n \<mapsto> v)) = Inr cobj'"
    by blast
  with n a show ?case by simp
qed

lemma get_set_comp:
  "c \<in> set comp_names \<Longrightarrow> c' \<in> set comp_names \<Longrightarrow>
   get_comp (set_comp sty c x) c' = (if c' = c then x else get_comp sty c')"
  by (auto simp: comp_names_def get_comp_def set_comp_def)

lemma apply_comps_Inr:
  "distinct names \<Longrightarrow> set names \<subseteq> set comp_names \<Longrightarrow> apply_comps names props sty = Inr sty' \<Longrightarrow>
   c \<in> set comp_names \<Longrightarrow>
   get_comp sty' c = (if c \<in> set names then upd_comp props c (get_comp sty c) else get_comp sty c)"
proof (induction names arbitrary: sty)
  case Nil
  then show ?case by simp
next
  case (Cons d names)
  have din: "d \<in> set comp_names" and dn: "d \<notin> set names" and dist: "distinct names"
    and sub: "set names \<subseteq> set comp_names"
    using Cons.prems(1,2) by simp_all
  show ?case
  proof (cases "props d")
    case None
    with Cons.prems(3) have "apply_comps names props sty = Inr sty'" by simp
    from Cons.IH[OF dist sub this Cons.prems(4)] None show ?thesis
      by (auto simp: upd_comp_def)
  next
    case (Some items)
    with Cons.prems(3) obtain cobj where
      sp: "set_properties d items (get_comp sty d) = Inr cobj"
      and rest: "apply_comps names props (set_comp sty d cobj) = Inr sty'"
      by (auto split: sum.splits)
    from set_properties_Inr[OF sp] have cobj: "cobj = upd_comp props d (get_comp sty d)"
      using Some by (simp add: upd_comp_def)
    from Cons.IH[OF dist sub rest Cons.prems(4)]
    have "get_comp sty' c = (if c \<in> set names then upd_comp props c (get_comp (set_comp sty d cobj) c)
                             else get_comp (set_comp sty d cobj) c)" .
    with din dn Cons.prems(4) cobj show ?thesis
      by (auto simp: get_set_comp)
  qed
qed

lemma apply_comps_ok:
  "set names \<subseteq> set comp_names \<Longrightarrow> distinct names \<Longrightarrow>
   \<forall>c\<in>set names. \<forall>items. props c = Some items \<longrightarrow> (\<forall>(n, v)\<in>set items. n \<in> dom (get_comp sty c)) \<Longrightarrow>
   \<exists>sty'. apply_comps names props sty = Inr sty'"
proof (induction names arbitrary: sty)
  case Nil
  then show ?case by simp
next
  case (Cons d names)
  have din: "d \<in> set comp_names" and dn: "d \<notin> set names" and dist: "distinct names"
    and sub: "set names \<subseteq> set comp_names"
    using Cons.prems(1,2) by simp_all
  show ?case
  proof (cases "props d")
    case None
    from Cons.prems(3) have
      "\<forall>c\<in>set names. \<forall>items. props c = Some items \<longrightarrow> (\<forall>(n, v)\<in>set items. n \<in> dom (get_comp sty c))"
      by simp
    from Cons.IH[OF sub dist this] None show ?thesis by simp
  next
    case (Some items)
    with Cons.prems(3) have "\<forall>(n, v)\<in>set items. n \<in> dom (get_comp sty d)" by simp
    from set_properties_ok[OF this, of d] obtain cobj where
      sp: "set_properties d items (get_comp sty d) = Inr cobj" by blast
    have other: "\<And>c'. c' \<in> set names \<Longrightarrow> get_comp (set_comp sty d cobj) c' = get_comp sty c'"
      using sub din dn by (auto simp: get_set_comp)
    have "\<forall>c\<in>set names. \<forall>items. props c = Some items \<longrightarrow>
            (\<forall>(n, v)\<in>set items. n \<in> dom (get_comp (set_comp sty d cobj) c))"
      using Cons.prems(3) other by simp
    from Cons.IH[OF sub dist this] sp Some show ?thesis by simp
  qed
qed

lemma text_in_names: "''text'' \<in> set comp_names" "''bg'' \<in> set comp_names"
  by (simp_all add: comp_names_def)

lemma get_comp_text: "get_comp sty ''text'' = text_comp sty" "get_comp sty ''bg'' = bg sty"
  by (simp_all add: get_comp_def)

lemma get_comp_text_upd:
  "c \<in> set comp_names \<Longrightarrow> get_comp (sty\<lparr>text_comp := t\<rparr>) c = (if c = ''text'' then t else get_comp sty c)"
  by (auto simp: comp_names_def get_comp_def)

lemma build_font_Inr:
  "build_font env tcomp = Inr tcomp' \<Longrightarrow> \<exists>f. tcomp' = tcomp(''font'' \<mapsto> f)"
  by (auto simp: build_font_def Let_def split: option.splits sum.splits)

lemma apply_style_properties_Inr:
  assumes "apply_style_properties env props sty = Inr sty'"
  shows "bg sty' = upd_comp props ''bg'' (bg sty)"
    and "c \<in> set comp_names \<Longrightarrow> c \<noteq> ''text'' \<Longrightarrow> get_comp sty' c = upd_comp props c (get_comp sty c)"
    and "\<exists>f. text_comp sty' = (upd_comp props ''text'' (text_comp sty))(''font'' \<mapsto> f)"
proof -
  from assms obtain sty1 tcomp where
    ac: "apply_comps comp_names props sty = Inr sty1"
    and bf: "build_font env (text_comp sty1) = Inr tcomp"
    and res: "sty' = sty1\<lparr>text_comp := tcomp\<rparr>"
    by (auto simp: apply_style_properties_def comp_names_def split: sum.splits)
  have d: "distinct comp_names" by (simp add: comp_names_def)
  note g = apply_comps_Inr[OF d subset_refl ac]
  from g[OF text_in_names(2)] res show "bg sty' = upd_comp props ''bg'' (bg sty)"
    by (simp add: get_comp_text text_in_names)
  show "get_comp sty' c = upd_comp props c (get_comp sty c)" if "c \<in> set comp_names" "c \<noteq> ''text''"
    using g[OF that(1)] that res by (simp add: get_comp_text_upd)
  from build_font_Inr[OF bf] obtain f where "tcomp = (text_comp sty1)(''font'' \<mapsto> f)" by blast
  with g[OF text_in_names(1)] res
  show "\<exists>f. text_comp sty' = (upd_comp props ''text'' (text_comp sty))(''font'' \<mapsto> f)"
    by (auto simp: get_comp_text text_in_names)
qed

lemma map_add_rev_items:
  "(m ++ map_of (rev items)) k = (case map_of (rev items) k of None \<Rightarrow> m k | Some v \<Rightarrow> Some v)"
  by (simp add: map_add_def)

lemma upd_bg_color:
  "upd_comp (properties h) ''bg'' m ''color'' =
     (case sets_bg_color h of None \<Rightarrow> m ''color'' | Some c \<Rightarrow> Some c)"
  by (simp add: upd_comp_def sets_bg_color_def map_add_rev_items split: option.splits)

lemma apply_holders_Inr:
  "apply_holders env hs sty = Inr sty' \<Longrightarrow> bg sty' ''color'' = last_bg_color hs (bg sty ''color'')"
proof (induction hs arbitrary: sty)
  case Nil
  then show ?case by (simp add: last_bg_color_def)
next
  case (Cons h hs)
  from Cons.prems obtain sty1 where
    a: "apply_style_properties env (properties h) sty = Inr sty1"
    and b: "apply_holders env hs sty1 = Inr sty'"
    by (auto split: sum.splits)
  from Cons.IH[OF b] apply_style_properties_Inr(1)[OF a] show ?case
    by (simp add: last_bg_color_def upd_bg_color)
qed

lemma last_bg_color_none:
  "\<forall>h\<in>set hs. sets_bg_color h = None \<Longrightarrow> last_bg_color hs col = col"
  by (induction hs arbitrary: col) (simp_all add: last_bg_color_def)

lemma last_bg_color_split:
  assumes "sets_bg_color r = Some c" "\<forall>h\<in>set E2. sets_bg_color h = None"
  shows "last_bg_color (E1 @ [r] @ E2) col = Some c"
  using assms(1) last_bg_color_none[OF assms(2), unfolded last_bg_color_def]
  by (simp add: last_bg_color_def)

text \<open>
  The collecting loop puts into \<open>el_id_styles\<close> the rules on the element id, in the
  order of registration, and takes every rule it collects from the registered ones.
\<close>

lemma collect_type_rules:
  "set (concat (map snd (map (\<lambda>(k, hs). if k = t then (k, hs @ [h]) else (k, hs)) T)))
     \<subseteq> set (concat (map snd T)) \<union> {h}"
  by (induction T) (auto split: if_splits)

lemma collect_holder_cases:
  assumes "collect_holder el ty h (T, S, E) = (T', S', E')"
  shows "E' = E @ filter (is_el_id_rule el ty) [h]" "set S' \<subseteq> set S \<union> {h}"
    "set (concat (map snd T')) \<subseteq> set (concat (map snd T)) \<union> {h}"
proof -
  show "E' = E @ filter (is_el_id_rule el ty) [h]"
    using assms by (auto simp: collect_holder_def is_el_id_rule_def split: if_splits)
  show "set S' \<subseteq> set S \<union> {h}"
    using assms by (auto simp: collect_holder_def split: if_splits)
  have "T' = T \<or> T' = map (\<lambda>(k, hs). if k = target_id h then (k, hs @ [h]) else (k, hs)) T"
    using assms by (auto simp: collect_holder_def split: if_splits)
  then show "set (concat (map snd T')) \<subseteq> set (concat (map snd T)) \<union> {h}"
    using collect_type_rules[of "target_id h" h T] by blast
qed

lemma fold_collect:
  "fold (collect_holder el ty) styles (T, S, E) = (T', S', E') \<Longrightarrow>
   E' = E @ filter (is_el_id_rule el ty) styles \<and> set S' \<subseteq> set S \<union> set styles
   \<and> set (concat (map snd T')) \<subseteq> set (concat (map snd T)) \<union> set styles"
proof (induction styles arbitrary: T S E)
  case Nil
  then show ?case by simp
next
  case (Cons h styles)
  obtain T1 S1 E1 where c: "collect_holder el ty h (T, S, E) = (T1, S1, E1)"
    by (cases "collect_holder el ty h (T, S, E)") auto
  note 1 = collect_holder_cases[OF c]
  from Cons.prems c have "fold (collect_holder el ty) styles (T1, S1, E1) = (T', S', E')" by simp
  from Cons.IH[OF this]
  have 2: "E' = E1 @ filter (is_el_id_rule el ty) styles" "set S' \<subseteq> set S1 \<union> set styles"
    "set (concat (map snd T')) \<subseteq> set (concat (map snd T1)) \<union> set styles" by blast+
  have e: "E' = E @ filter (is_el_id_rule el ty) (h # styles)" using 1(1) 2(1) by simp
  have s: "set S' \<subseteq> set S \<union> set (h # styles)" using 1(2) 2(2) by auto
  have "set (concat (map snd T')) \<subseteq> (set (concat (map snd T)) \<union> {h}) \<union> set styles"
    using 1(3) 2(3) by blast
  then have t: "set (concat (map snd T')) \<subseteq> set (concat (map snd T)) \<union> set (h # styles)"
    by auto
  from e s t show ?case by blast
qed

lemma collect_start:
  "concat (map snd (map (\<lambda>el_t. (el_t, [])) ks)) = []"
  by (induction ks) simp_all

text \<open>
  Whenever \<open>get_style_of_type\<close> returns a style, its background colour is the one of the
  last rule on the element id that sets a background colour.
\<close>

lemma get_style_of_type_el_id_wins:
  assumes res: "get_style_of_type env styles el ty = Inr sty"
    and split: "filter (is_el_id_rule el ty) styles = E1 @ [r] @ E2"
    and r: "sets_bg_color r = Some c"
    and E2: "\<forall>h\<in>set E2. sets_bg_color h = None"
  shows "bg sty ''color'' = Some c"
proof -
  obtain T S E where f: "fold (collect_holder el ty) styles
       (map (\<lambda>el_t. (el_t, [])) (dict_keys (element_types el)), [], []) = (T, S, E)"
    by (cases "fold (collect_holder el ty) styles
       (map (\<lambda>el_t. (el_t, [])) (dict_keys (element_types el)), [], [])") auto
  from fold_collect[OF f] split have E: "E = E1 @ [r] @ E2" by simp
  from res f obtain s2 where 3: "apply_holders env E s2 = Inr sty"
    unfolding get_style_of_type_def
    by (auto simp: Let_def split: option.splits sum.splits if_splits)
  from apply_holders_Inr[OF 3] E last_bg_color_split[OF r E2] show ?thesis by simp
qed

text \<open>
  When every font loads, rules with known property names and numeric font sizes are
  applied without an exception.
\<close>

lemma valid_items_dom:
  assumes "valid_items c items" "\<forall>n. (m n \<noteq> None) = has_attr c n"
  shows "\<forall>(n, v)\<in>set items. n \<in> dom m"
  using assms by (auto simp: valid_items_def list_all_iff dom_def)

lemma upd_items_attrs:
  assumes "\<forall>(n, v)\<in>set items. n \<in> dom m"
  shows "((m ++ map_of (rev items)) n \<noteq> None) = (m n \<noteq> None)"
proof (cases "map_of (rev items) n")
  case None
  then show ?thesis by (simp add: map_add_rev_items)
next
  case (Some v)
  then have "(n, v) \<in> set items" using map_of_SomeD[of "rev items" n v] by simp
  with assms have "m n \<noteq> None" by auto
  with Some show ?thesis by (simp add: map_add_rev_items)
qed

lemma font_ok_upd:
  assumes "font_ok m" "valid_items ''text'' items"
  shows "font_ok (m ++ map_of (rev items))"
proof (cases "map_of (rev items) ''font_size''")
  case None
  with assms(1) show ?thesis by (simp add: font_ok_def map_add_rev_items)
next
  case (Some x)
  then have "(''font_size'', x) \<in> set items" using map_of_SomeD[of "rev items" "''font_size''" x] by simp
  with assms(2) have "is_number x" by (auto simp: valid_items_def list_all_iff)
  with Some show ?thesis by (simp add: font_ok_def map_add_rev_items)
qed

lemma text_attrs:
  "has_attr ''text'' ''sysfont''" "has_attr ''text'' ''font_name''" "has_attr ''text'' ''font''"
  by (simp_all add: has_attr_def UITextStyle_fields_def)

lemma build_font_ok:
  assumes "font_ok tcomp" "\<forall>n. (tcomp n \<noteq> None) = has_attr ''text'' n" "fonts_load env"
  shows "\<exists>tcomp'. build_font env tcomp = Inr tcomp'"
proof -
  from assms(2) text_attrs obtain sf fn where a: "tcomp ''sysfont'' = Some sf" "tcomp ''font_name'' = Some fn"
    by (metis option.exhaust)
  from assms(1) obtain v where v: "tcomp ''font_size'' = Some v" "is_number v"
    by (auto simp: font_ok_def)
  from v(2) obtain n where n: "int_conv env v = Inr n"
    by (cases v) (auto simp: int_conv_def is_number_def)
  from assms(3) have "pygame_Font env x n = None" "pygame_SysFont env x n = None" for x
    by (simp_all add: fonts_load_def)
  with a v(1) n show ?thesis by (simp add: build_font_def Let_def)
qed

lemma apply_style_properties_ok:
  assumes wf: "wf_style sty" and v: "valid_properties props" and env: "fonts_load env"
  shows "\<exists>sty'. apply_style_properties env props sty = Inr sty' \<and> wf_style sty'"
proof -
  have attrs: "\<And>c. c \<in> set comp_names \<Longrightarrow> \<forall>n. (get_comp sty c n \<noteq> None) = has_attr c n"
    using wf by (simp add: wf_style_def)
  have vi: "\<And>c items. c \<in> set comp_names \<Longrightarrow> props c = Some items \<Longrightarrow> valid_items c items"
    using v by (auto simp: valid_properties_def list_all_iff split: option.splits)
  have pre: "\<forall>c\<in>set comp_names. \<forall>items. props c = Some items \<longrightarrow>
               (\<forall>(n, v)\<in>set items. n \<in> dom (get_comp sty c))"
    using valid_items_dom[OF vi attrs] by blast
  have d: "distinct comp_names" by (simp add: comp_names_def)
  from apply_comps_ok[OF subset_refl d pre]
  obtain sty1 where s1: "apply_comps comp_names props sty = Inr sty1" by blast
  have g1: "\<And>c. c \<in> set comp_names \<Longrightarrow> get_comp sty1 c = upd_comp props c (get_comp sty c)"
    using apply_comps_Inr[OF d subset_refl s1] by simp
  have attrs1: "\<forall>n. (get_comp sty1 c n \<noteq> None) = has_attr c n" if c: "c \<in> set comp_names" for c
  proof (cases "props c")
    case None
    with g1[OF c] attrs[OF c] show ?thesis by (simp add: upd_comp_def)
  next
    case (Some items)
    from upd_items_attrs[OF valid_items_dom[OF vi[OF c Some] attrs[OF c]]] g1[OF c] Some attrs[OF c]
    show ?thesis by (simp add: upd_comp_def)
  qed
  have fo: "font_ok (text_comp sty1)"
  proof (cases "props ''text''")
    case None
    with g1[OF text_in_names(1)] wf show ?thesis
      by (simp add: upd_comp_def wf_style_def get_comp_text)
  next
    case (Some items)
    from wf have "font_ok (text_comp sty)" by (simp add: wf_style_def)
    from font_ok_upd[OF this vi[OF text_in_names(1) Some]] g1[OF text_in_names(1)] Some
    show ?thesis by (simp add: upd_comp_def get_comp_text)
  qed
  from attrs1[OF text_in_names(1)] have ta: "\<forall>n. (text_comp sty1 n \<noteq> None) = has_attr ''text'' n"
    by (simp add: get_comp_text)
  from build_font_ok[OF fo ta env] obtain tcomp where bf: "build_font env (text_comp sty1) = Inr tcomp"
    by blast
  from build_font_Inr[OF bf] obtain f where tcomp: "tcomp = (text_comp sty1)(''font'' \<mapsto> f)" by blast
  let ?sty' = "sty1\<lparr>text_comp := tcomp\<rparr>"
  have res: "apply_style_properties env props sty = Inr ?sty'"
    using s1 bf by (simp add: apply_style_properties_def comp_names_def)
  have "\<forall>n. (tcomp n \<noteq> None) = has_attr ''text'' n"
    using ta tcomp text_attrs(3) by auto
  moreover have "font_ok tcomp" using fo tcomp by (auto simp: font_ok_def)
  ultimately have "wf_style ?sty'"
    using attrs1 by (simp add: wf_style_def get_comp_text_upd)
  with res show ?thesis by blast
qed

lemma apply_holders_ok:
  "wf_style sty \<Longrightarrow> \<forall>h\<in>set hs. valid_properties (properties h) \<Longrightarrow> fonts_load env \<Longrightarrow>
   \<exists>sty'. apply_holders env hs sty = Inr sty' \<and> wf_style sty'"
proof (induction hs arbitrary: sty)
  case Nil
  then show ?case by simp
next
  case (Cons h hs)
  from Cons.prems have vh: "valid_properties (properties h)" by simp
  from apply_style_properties_ok[OF Cons.prems(1) vh Cons.prems(3)]
  obtain sty1 where a: "apply_style_properties env (properties h) sty = Inr sty1" "wf_style sty1"
    by blast
  from Cons.prems(2) have "\<forall>h\<in>set hs. valid_properties (properties h)" by simp
  from Cons.IH[OF a(2) this Cons.prems(3)] a(1) show ?case by simp
qed


lemma UITextStyle_init_ok:
  assumes "fonts_load env"
  shows "UITextStyle_init env =
           Inr (UITextStyle_fields(''font'' \<mapsto> VFont True (VStr ''Segoe UI'') 22 False False False False))"
proof -
  from assms have "pygame_SysFont env (VStr ''Segoe UI'') 22 = None" by (simp add: fonts_load_def)
  then have "build_font env UITextStyle_fields =
      Inr (UITextStyle_fields(''font'' \<mapsto> VFont True (VStr ''Segoe UI'') 22 False False False False))"
    by (simp add: build_font_def UITextStyle_fields_def int_conv_def Let_def)
  then show ?thesis
    by (simp add: UITextStyle_init_def apply_mods_def UITextStyle_fields_def)
qed

lemma UIStyle_init_ok:
  assumes "fonts_load env"
  shows "\<exists>sty. UIStyle_init env = Inr sty \<and> wf_style sty \<and> bg sty = UIBGStyle_init"
proof -
  let ?t = "UITextStyle_fields(''font'' \<mapsto> VFont True (VStr ''Segoe UI'') 22 False False False False)"
  let ?sty = "\<lparr>stack = UIStackStyle_init, bg = UIBGStyle_init, image_comp = UIImageStyle_init,
               shape = UIShapeStyle_init, text_comp = ?t, icon = UIIconStyle_init,
               outline = UIOutlineStyle_init\<rparr>"
  have 1: "UIStyle_init env = Inr ?sty"
    using UITextStyle_init_ok[OF assms] by (simp add: UIStyle_init_def)
  have 2: "\<forall>c\<in>set comp_names. \<forall>n. (get_comp ?sty c n \<noteq> None) = has_attr c n"
    by (simp add: comp_names_def get_comp_def has_attr_def)
  have 3: "font_ok ?t"
    by (simp add: font_ok_def UITextStyle_fields_def is_number_def)
  from 1 2 3 show ?thesis by (simp add: wf_style_def)
qed

lemma wf_style_bg_color:
  assumes "wf_style sty"
  shows "wf_style (sty\<lparr>bg := (bg sty)(''color'' \<mapsto> v)\<rparr>)"
proof -
  have c: "has_attr ''bg'' ''color''" by (simp add: has_attr_def UIBGStyle_init_def)
  from assms have all: "\<And>d n. d \<in> set comp_names \<Longrightarrow> (get_comp sty d n \<noteq> None) = has_attr d n"
    and fo: "font_ok (text_comp sty)"
    by (simp_all add: wf_style_def)
  from all[OF text_in_names(2)] have b: "\<And>n. (bg sty n \<noteq> None) = has_attr ''bg'' n"
    by (simp add: get_comp_text)
  have b': "(((bg sty)(''color'' \<mapsto> v)) n \<noteq> None) = has_attr ''bg'' n" for n
    using b[of n] c by (cases "n = ''color''") simp_all
  have g: "get_comp (sty\<lparr>bg := x\<rparr>) d = (if d = ''bg'' then x else get_comp sty d)"
    if "d \<in> set comp_names" for d x
    using that by (auto simp: comp_names_def get_comp_def)
  have "(get_comp (sty\<lparr>bg := (bg sty)(''color'' \<mapsto> v)\<rparr>) d n \<noteq> None) = has_attr d n"
    if d: "d \<in> set comp_names" for d n
  proof (cases "d = ''bg''")
    case True
    with g[OF d] b'[of n] show ?thesis by simp
  next
    case False
    with g[OF d] all[OF d, of n] show ?thesis by simp
  qed
  with fo show ?thesis by (simp add: wf_style_def)
qed

lemma default_styles_ok:
  assumes "fonts_load env"
  shows "\<exists>sty. default_style env = Inr sty \<and> wf_style sty"
    and "\<exists>sty. default_hover_style env = Inr sty \<and> wf_style sty"
    and "\<exists>sty. default_press_style env = Inr sty \<and> wf_style sty"
proof -
  from UIStyle_init_ok[OF assms] obtain sty where s: "UIStyle_init env = Inr sty" "wf_style sty"
    by blast
  from s show "\<exists>sty. default_style env = Inr sty \<and> wf_style sty"
    by (simp add: default_style_def)
  from s wf_style_bg_color[OF s(2)] show "\<exists>sty. default_hover_style env = Inr sty \<and> wf_style sty"
    by (simp add: default_hover_style_def)
  from s wf_style_bg_color[OF s(2)] show "\<exists>sty. default_press_style env = Inr sty \<and> wf_style sty"
    by (simp add: default_press_style_def)
qed

lemma get_style_of_type_returns:
  assumes ty: "ty = ''normal'' \<or> ty = ''hover'' \<or> ty = ''press''"
    and valid: "\<forall>h\<in>set styles. valid_properties (properties h)"
    and env: "fonts_load env"
  shows "\<exists>sty. get_style_of_type env styles el ty = Inr sty"
proof -
  obtain T S E where f: "fold (collect_holder el ty) styles
       (map (\<lambda>el_t. (el_t, [])) (dict_keys (element_types el)), [], []) = (T, S, E)"
    by (cases "fold (collect_holder el ty) styles
       (map (\<lambda>el_t. (el_t, [])) (dict_keys (element_types el)), [], [])") auto
  from fold_collect[OF f] collect_start
  have E: "set E \<subseteq> set styles" and S: "set S \<subseteq> set styles"
    and T: "set (concat (map snd T)) \<subseteq> set styles"
    by auto
  obtain start where st: "(if ty = ''normal'' then Some (default_style env)
                   else if ty = ''hover'' then Some (default_hover_style env)
                   else if ty = ''press'' then Some (default_press_style env)
                   else None) = Some (Inr start)" and wfs: "wf_style start"
    using ty default_styles_ok[OF env] by auto
  from apply_holders_ok[OF wfs _ env, of "concat (map snd T)"] valid T
  obtain s1 where 1: "apply_holders env (concat (map snd T)) start = Inr s1" "wf_style s1" by blast
  from apply_holders_ok[OF 1(2) _ env, of S] valid S
  obtain s2 where 2: "apply_holders env S s1 = Inr s2" "wf_style s2" by blast
  from apply_holders_ok[OF 2(2) _ env, of E] valid E
  obtain s3 where 3: "apply_holders env E s2 = Inr s3" by blast
  have "get_style_of_type env styles el ty = Inr s3"
    unfolding get_style_of_type_def using f st 1(1) 2(1) 3 by (simp add: Let_def)
  then show ?thesis by blast
qed

text \<open>
  An exception of a font constructor ends the resolution: no snapshot is returned.
\<close>

lemma get_style_of_type_font_error:
  "(case get_style_of_type raising_env [example_type_rule, example_font_rule] example_button
           ''normal'' of
      Inl err \<Rightarrow> err = FileNotFoundError
    | Inr sty \<Rightarrow> False)"
  by code_simp

text \<open>
  C2. For a node with the type tag \<open>button\<close> and the element id \<open>submit\<close>, and two
  rules of one interaction state, one on the type \<open>button\<close> and one on the element
  id \<open>submit\<close>, which set different background colours: in both orders of
  registration, every style snapshot that \<open>get_style_of_type\<close> returns has the
  background colour of the element-id rule. It returns a snapshot, rather than raising
  an exception, when the state is one of the three, the rules name known properties
  with numeric font sizes, and the font constructors of pygame raise nothing.
\<close>

theorem C2_element_id_rule_overrides_type_rule:
  assumes el: "''button'' \<in> set (element_types el)" "element_id el = ''submit''"
    and rt: "style_type rt = ty" "style_target rt = ''element_type''" "target_id rt = ''button''"
    and re: "style_type re = ty" "style_target re = ''element_id''" "target_id re = ''submit''"
    and colors: "sets_bg_color rt = Some ct" "sets_bg_color re = Some ce" "ct \<noteq> ce"
  shows "(\<forall>sty. get_style_of_type env [rt, re] el ty = Inr sty \<longrightarrow> bg sty ''color'' = Some ce) \<and>
         (\<forall>sty. get_style_of_type env [re, rt] el ty = Inr sty \<longrightarrow> bg sty ''color'' = Some ce) \<and>
         ((ty = ''normal'' \<or> ty = ''hover'' \<or> ty = ''press'') \<and>
          valid_properties (properties rt) \<and> valid_properties (properties re) \<and> fonts_load env \<longrightarrow>
            (\<exists>sty. get_style_of_type env [rt, re] el ty = Inr sty) \<and>
            (\<exists>sty. get_style_of_type env [re, rt] el ty = Inr sty))"
proof -
  have a: "is_el_id_rule el ty re" "\<not> is_el_id_rule el ty rt"
    using el rt re by (simp_all add: is_el_id_rule_def)
  have 1: "filter (is_el_id_rule el ty) [rt, re] = [] @ [re] @ []"
    and 2: "filter (is_el_id_rule el ty) [re, rt] = [] @ [re] @ []"
    using a by simp_all
  have p1: "\<forall>sty. get_style_of_type env [rt, re] el ty = Inr sty \<longrightarrow> bg sty ''color'' = Some ce"
    using get_style_of_type_el_id_wins[OF _ 1 colors(2)] by simp
  have p2: "\<forall>sty. get_style_of_type env [re, rt] el ty = Inr sty \<longrightarrow> bg sty ''color'' = Some ce"
    using get_style_of_type_el_id_wins[OF _ 2 colors(2)] by simp
  have p3: "(\<exists>sty. get_style_of_type env [rt, re] el ty = Inr sty) \<and>
            (\<exists>sty. get_style_of_type env [re, rt] el ty = Inr sty)"
    if "ty = ''normal'' \<or> ty = ''hover'' \<or> ty = ''press''"
      "valid_properties (properties rt)" "valid_properties (properties re)" "fonts_load env"
    using get_style_of_type_returns[OF that(1) _ that(4), of "[rt, re]" el]
          get_style_of_type_returns[OF that(1) _ that(4), of "[re, rt]" el] that(2,3)
    by simp
  from p1 p2 p3 show ?thesis by blast
qed

lemma ex_valid:
  "valid_properties (properties example_type_rule)" "valid_properties (properties example_id_rule)"
  by (simp_all add: valid_properties_def valid_items_def comp_names_def example_type_rule_def
       example_id_rule_def has_attr_def UIBGStyle_init_def)

lemma ex_cols: "sets_bg_color example_type_rule = Some (VTuple [VInt 255, VInt 0, VInt 0])"
   "sets_bg_color example_id_rule = Some (VTuple [VInt 0, VInt 255, VInt 0])"
  by (simp_all add: sets_bg_color_def example_type_rule_def example_id_rule_def)

lemma ex_env: "fonts_load example_env"
  by (simp add: fonts_load_def example_env_def)

theorem C2_witness:
  "''button'' \<in> set (element_types example_button) \<and> element_id example_button = ''submit'' \<and>
   valid_properties (properties example_type_rule) \<and>
   valid_properties (properties example_id_rule) \<and> fonts_load example_env \<and>
   sets_bg_color example_type_rule = Some (VTuple [VInt 255, VInt 0, VInt 0]) \<and>
   sets_bg_color example_id_rule = Some (VTuple [VInt 0, VInt 255, VInt 0]) \<and>
   (\<exists>sty. get_style_of_type example_env [example_type_rule, example_id_rule] example_button ''normal''
            = Inr sty
       \<and> bg sty ''color'' = Some (VTuple [VInt 0, VInt 255, VInt 0])) \<and>
   (\<exists>sty. get_style_of_type example_env [example_id_rule, example_type_rule] example_button ''normal''
            = Inr sty
       \<and> bg sty ''color'' = Some (VTuple [VInt 0, VInt 255, VInt 0]))"
proof -
  have h: "''button'' \<in> set (element_types example_button)" "element_id example_button = ''submit''"
    "style_type example_type_rule = ''normal''" "style_target example_type_rule = ''element_type''"
    "target_id example_type_rule = ''button''"
    "style_type example_id_rule = ''normal''" "style_target example_id_rule = ''element_id''"
    "target_id example_id_rule = ''submit''"
    by (simp_all add: example_button_def example_type_rule_def example_id_rule_def)
  have ne: "VTuple [VInt 255, VInt 0, VInt 0] \<noteq> VTuple [VInt 0, VInt 255, VInt 0]" by simp
  from C2_element_id_rule_overrides_type_rule[OF h ex_cols ne, of example_env]
       ex_valid ex_env ex_cols h(1,2)
  show ?thesis by auto
qed

text \<open>
  The setters that look \<open>get_style_group\<close> up on \<open>UIStyles\<close> store the style group that
  the cascade returns.
\<close>

lemma set_style_id_recomputes:
  "get_style_group env styles ((ident e)\<lparr>style_id := sid\<rparr>) = Inr g \<Longrightarrow>
   set_style_id env styles sid e = (set_style_group g (e\<lparr>ident := (ident e)\<lparr>style_id := sid\<rparr>\<rparr>), None)"
  by (simp add: set_style_id_def call_get_style_group_def class_getattr_def UIStyles_class_def Let_def)


section \<open>Properties of the dirty flag\<close>

text \<open>
  \<open>set_dirty\<close> writes dirty flags only, never clears one when called with \<open>True\<close>,
  and repairs every violation of the invariant at the node it is called on.
\<close>

lemma set_dirty_length [simp]: "length (set_dirty s i d) = length s"
  by (induction s i d rule: set_dirty.induct) (subst set_dirty.simps, simp add: Let_def split: option.splits)

lemma set_dirty_frame:
  "(set_dirty s i d ! j)\<lparr>dirty := x\<rparr> = (s ! j)\<lparr>dirty := x\<rparr>"
proof (induction s i d rule: set_dirty.induct)
  case (1 s i d)
  show ?case
  proof (cases "i \<ge> length s \<or> d = dirty (s ! i)")
    case True
    then show ?thesis by (subst set_dirty.simps) auto
  next
    case False
    then have il: "i < length s" and dd: "d \<noteq> dirty (s ! i)" by auto
    let ?s' = "s[i := (s ! i)\<lparr>dirty := d\<rparr>]"
    have upd: "(?s' ! j)\<lparr>dirty := x\<rparr> = (s ! j)\<lparr>dirty := x\<rparr>"
      using il by (cases "j = i") simp_all
    show ?thesis
    proof (cases "parent (s ! i)")
      case None
      with il dd upd show ?thesis by (subst set_dirty.simps) (simp add: Let_def)
    next
      case (Some p)
      from "1.IH"[OF _ _ refl Some] il dd
      have "(set_dirty ?s' p True ! j)\<lparr>dirty := x\<rparr> = (?s' ! j)\<lparr>dirty := x\<rparr>" by simp
      with il dd upd Some show ?thesis by (subst set_dirty.simps) (simp add: Let_def)
    qed
  qed
qed

lemma set_dirty_parent [simp]: "parent (set_dirty s i d ! j) = parent (s ! j)"
proof -
  have "parent (set_dirty s i d ! j) = parent ((set_dirty s i d ! j)\<lparr>dirty := True\<rparr>)" by simp
  also have "\<dots> = parent ((s ! j)\<lparr>dirty := True\<rparr>)" by (simp only: set_dirty_frame)
  finally show ?thesis by simp
qed

lemma set_dirty_noop: "i < length s \<Longrightarrow> dirty (s ! i) = d \<Longrightarrow> set_dirty s i d = s"
  by (subst set_dirty.simps) simp

lemma set_dirty_monotone:
  "j < length s \<Longrightarrow> dirty (s ! j) \<Longrightarrow> dirty (set_dirty s i True ! j)"
proof (induction s i "True" rule: set_dirty.induct)
  case (1 s i)
  show ?case
  proof (cases "i \<ge> length s \<or> dirty (s ! i)")
    case True
    with "1.prems" show ?thesis by (subst set_dirty.simps) auto
  next
    case False
    then have il: "i < length s" and dd: "\<not> dirty (s ! i)" by auto
    let ?s' = "s[i := (s ! i)\<lparr>dirty := True\<rparr>]"
    have dj: "dirty (?s' ! j)" using "1.prems" il by (cases "j = i") simp_all
    show ?thesis
    proof (cases "parent (s ! i)")
      case None
      with il dd dj show ?thesis by (subst set_dirty.simps) (simp add: Let_def)
    next
      case (Some p)
      from "1.hyps"[OF _ _ refl Some] il dd dj "1.prems"(1)
      have "dirty (set_dirty ?s' p True ! j)" by simp
      with il dd Some show ?thesis by (subst set_dirty.simps) (simp add: Let_def)
    qed
  qed
qed

lemma set_dirty_self: "i < length s \<Longrightarrow> dirty (set_dirty s i True ! i)"
proof (cases "dirty (s ! i)")
  case True
  assume "i < length s"
  with True show ?thesis by (simp add: set_dirty_noop)
next
  case False
  assume il: "i < length s"
  let ?s' = "s[i := (s ! i)\<lparr>dirty := True\<rparr>]"
  have d: "dirty (?s' ! i)" using il by simp
  show ?thesis
  proof (cases "parent (s ! i)")
    case None
    with il False d show ?thesis by (subst set_dirty.simps) (simp add: Let_def)
  next
    case (Some p)
    from set_dirty_monotone[of i ?s' p] d il have "dirty (set_dirty ?s' p True ! i)" by simp
    with il False Some show ?thesis by (subst set_dirty.simps) (simp add: Let_def)
  qed
qed

lemma set_dirty_repairs:
  "parents_ok s \<Longrightarrow> broken (set_dirty s i True) j \<Longrightarrow> broken s j \<and> parent (s ! j) \<noteq> Some i"
proof (induction s i "True" arbitrary: j rule: set_dirty.induct)
  case (1 s i)
  show ?case
  proof (cases "i \<ge> length s \<or> dirty (s ! i)")
    case True
    then have eq: "set_dirty s i True = s" by (subst set_dirty.simps) auto
    with "1.prems" have b: "broken s j" by simp
    have "parent (s ! j) \<noteq> Some i"
    proof
      assume p: "parent (s ! j) = Some i"
      with b "1.prems"(1) have "i < length s" by (auto simp: broken_def parents_ok_def)
      with True have "dirty (s ! i)" by simp
      with b p show False by (auto simp: broken_def)
    qed
    with b show ?thesis by simp
  next
    case False
    then have il: "i < length s" and dd: "\<not> dirty (s ! i)" by auto
    let ?s' = "s[i := (s ! i)\<lparr>dirty := True\<rparr>]"
    have pk: "parents_ok ?s'" using "1.prems"(1) il
      by (auto simp: parents_ok_def nth_list_update)
    have step: "\<And>k. broken ?s' k \<Longrightarrow> k \<noteq> i \<Longrightarrow> broken s k \<and> parent (s ! k) \<noteq> Some i"
      using il by (auto simp: broken_def nth_list_update split: if_splits)
    show ?thesis
    proof (cases "parent (s ! i)")
      case None
      then have eq: "set_dirty s i True = ?s'" using il dd by (subst set_dirty.simps) (simp add: Let_def)
      have "j \<noteq> i" using "1.prems"(2) None il unfolding eq by (auto simp: broken_def)
      with step "1.prems"(2) eq show ?thesis by simp
    next
      case (Some p)
      then have eq: "set_dirty s i True = set_dirty ?s' p True" using il dd
        by (subst set_dirty.simps) (simp add: Let_def)
      from "1.hyps"[OF _ _ refl Some pk, of j] il dd "1.prems"(2) eq
      have b: "broken ?s' j" "parent (?s' ! j) \<noteq> Some p" by auto
      have "j \<noteq> i" using b(2) Some il by auto
      with step b(1) show ?thesis by simp
    qed
  qed
qed

lemma dirty_inv_broken: "dirty_inv s = (\<forall>j. \<not> broken s j)"
  by (auto simp: dirty_inv_def broken_def)

lemma set_dirty_inv: "parents_ok s \<Longrightarrow> dirty_inv s \<Longrightarrow> dirty_inv (set_dirty s i True)"
  using set_dirty_repairs by (auto simp: dirty_inv_broken)

lemma ancestor_cong:
  "ancestor s a i \<Longrightarrow> length s' = length s \<Longrightarrow> \<forall>j. parent (s' ! j) = parent (s ! j) \<Longrightarrow>
   ancestor s' a i"
  by (induction rule: ancestor.induct) (auto intro: ancestor.intros)

lemma ancestor_set_dirty: "ancestor s a i \<Longrightarrow> ancestor (set_dirty s j d) a i"
  by (erule ancestor_cong[where s = s]) simp_all

lemma ancestors_dirty:
  "ancestor s a i \<Longrightarrow> parents_ok s \<Longrightarrow> dirty_inv s \<Longrightarrow> dirty (s ! i) \<Longrightarrow> dirty (s ! a)"
proof (induction rule: ancestor.induct)
  case (ancestor_parent i s p)
  then show ?case by (auto simp: dirty_inv_def)
next
  case (ancestor_step i s p a)
  then have "dirty (s ! p)" by (auto simp: dirty_inv_def)
  with ancestor_step show ?case by simp
qed

lemma set_dirty_changes_ancestors:
  "j < length s \<Longrightarrow> dirty (set_dirty s i True ! j) \<noteq> dirty (s ! j) \<Longrightarrow> j = i \<or> ancestor s j i"
proof (induction s i "True" rule: set_dirty.induct)
  case (1 s i)
  show ?case
  proof (cases "i \<ge> length s \<or> dirty (s ! i)")
    case True
    then have "set_dirty s i True = s" by (subst set_dirty.simps) auto
    with "1.prems" show ?thesis by simp
  next
    case False
    then have il: "i < length s" and dd: "\<not> dirty (s ! i)" by auto
    let ?s' = "s[i := (s ! i)\<lparr>dirty := True\<rparr>]"
    show ?thesis
    proof (cases "j = i")
      case True then show ?thesis by simp
    next
      case ji: False
      then have same: "dirty (?s' ! j) = dirty (s ! j)" by simp
      show ?thesis
      proof (cases "parent (s ! i)")
        case None
        then have "set_dirty s i True = ?s'" using il dd by (subst set_dirty.simps) (simp add: Let_def)
        with "1.prems" same show ?thesis by simp
      next
        case (Some p)
        then have eq: "set_dirty s i True = set_dirty ?s' p True" using il dd
          by (subst set_dirty.simps) (simp add: Let_def)
        from "1.hyps"[OF _ _ refl Some] il dd "1.prems" eq same
        have "j = p \<or> ancestor ?s' j p" by simp
        moreover have "\<And>a b. ancestor ?s' a b \<Longrightarrow> ancestor s a b"
        proof -
          fix a b assume h: "ancestor ?s' a b"
          have "\<forall>j. parent (s ! j) = parent (?s' ! j)" using il by (auto simp: nth_list_update)
          with ancestor_cong[OF h, of s] show "ancestor s a b" by simp
        qed
        ultimately show ?thesis using Some il by (auto intro: ancestor.intros)
      qed
    qed
  qed
qed

text \<open>
  C9. \<open>set_dirty()\<close> on a node sets its flag and stops at the first ancestor that is
  dirty already. In a scene where the parent of every dirty node is dirty, all
  ancestors up to the root are dirty afterwards and the invariant holds again; only
  the node and its ancestors change, no flag is cleared, and on a dirty node the call
  changes nothing. That the propagation ends is the termination proof of \<open>set_dirty\<close>.
\<close>

theorem C9_set_dirty_propagates_upward:
  assumes "parents_ok s" "dirty_inv s" "i < length s"
  shows "dirty (set_dirty s i True ! i)
    \<and> (\<forall>a. ancestor s a i \<longrightarrow> dirty (set_dirty s i True ! a))
    \<and> dirty_inv (set_dirty s i True)
    \<and> (\<forall>j<length s. dirty (set_dirty s i True ! j) \<noteq> dirty (s ! j) \<longrightarrow> j = i \<or> ancestor s j i)
    \<and> (\<forall>j<length s. dirty (s ! j) \<longrightarrow> dirty (set_dirty s i True ! j))
    \<and> (dirty (s ! i) \<longrightarrow> set_dirty s i True = s)"
proof -
  let ?s' = "set_dirty s i True"
  have 1: "dirty (?s' ! i)" using assms(3) by (rule set_dirty_self)
  have inv: "dirty_inv ?s'" using assms(1,2) by (rule set_dirty_inv)
  have pk: "parents_ok ?s'" using assms(1) by (simp add: parents_ok_def)
  have 2: "\<forall>a. ancestor s a i \<longrightarrow> dirty (?s' ! a)"
    using ancestors_dirty[OF ancestor_set_dirty pk inv 1] by blast
  show ?thesis
    using 1 2 inv set_dirty_changes_ancestors set_dirty_monotone set_dirty_noop[OF assms(3)]
    by blast
qed

theorem C9_witness:
  "parents_ok clean_chain \<and> dirty_inv clean_chain \<and> 2 < length clean_chain
   \<and> dirty (set_dirty clean_chain 2 True ! 2) \<and> dirty (set_dirty clean_chain 2 True ! 1)
   \<and> dirty (set_dirty clean_chain 2 True ! 0)"
proof -
  have p: "parents_ok clean_chain"
    by (auto simp: parents_ok_def clean_chain_def plain_element_def nth_Cons split: nat.splits)
  have d: "dirty_inv clean_chain"
    by (auto simp: dirty_inv_def clean_chain_def plain_element_def nth_Cons split: nat.splits)
  have l: "2 < length clean_chain" by (simp add: clean_chain_def)
  have a: "ancestor clean_chain 1 2" "ancestor clean_chain 0 1"
    by (rule ancestor_parent; simp add: clean_chain_def plain_element_def)+
  have a02: "ancestor clean_chain 0 2"
    by (rule ancestor_step[where p = 1, OF _ _ a(2)]) (simp_all add: clean_chain_def plain_element_def)
  from C9_set_dirty_propagates_upward[OF p d l] a(1) a02 p d l show ?thesis by blast
qed

text \<open>
  Without the invariant the flag does not reach every ancestor: under a clean root
  and a dirty parent, marking the clean child leaves the root clean.
\<close>

theorem C9_counterexample:
  "ancestor dirty_chain 0 2 \<and> \<not> dirty (dirty_chain ! 2) \<and> \<not> dirty (set_dirty dirty_chain 2 True ! 0)"
proof -
  have a: "ancestor dirty_chain 1 2" "ancestor dirty_chain 0 1"
    by (rule ancestor_parent; simp add: dirty_chain_def plain_element_def)+
  have "ancestor dirty_chain 0 2"
    by (rule ancestor_step[where p = 1, OF _ _ a(2)]) (simp_all add: dirty_chain_def plain_element_def)
  moreover have "\<not> dirty (set_dirty dirty_chain 2 True ! 0)" by code_simp
  moreover have "\<not> dirty (dirty_chain ! 2)" by code_simp
  ultimately show ?thesis by simp
qed


section \<open>Properties of the absolute position\<close>

text \<open>
  \<open>_update_absolute_rect_pos\<close> changes no parent, child, relative rectangle or scroll
  offset; it leaves every node it writes with the position \<open>get_absolute_topleft\<close>
  gives, and in a finite tree it returns.
\<close>

lemma py_int_of_int [simp]: "py_int (of_int x) = x"
  by (simp add: py_int_def)


lemma same_layout_refl: "same_layout s s"
  by (simp add: same_layout_def)






lemma gat_mono:
  "get_absolute_topleft n rt s i = Some g \<Longrightarrow> n \<le> m \<Longrightarrow> get_absolute_topleft m rt s i = Some g"
proof (induction n arbitrary: i g m)
  case 0
  then show ?case by simp
next
  case (Suc n)
  from Suc.prems(2) obtain m' where m: "m = Suc m'" "n \<le> m'" by (cases m) auto
  show ?case
  proof (cases "parent (s ! i)")
    case None
    with Suc.prems(1) m show ?thesis by (auto split: if_splits)
  next
    case (Some p)
    with Suc.prems(1) obtain gp where gp: "get_absolute_topleft n rt s p = Some gp"
      by (auto split: if_splits option.splits)
    from Suc.IH[OF gp m(2)] Suc.prems(1) Some gp m show ?thesis
      by (auto split: if_splits option.splits)
  qed
qed
















section \<open>Properties of the hit-test\<close>

text \<open>
  The loop returns at the first qualifying child in the order it walks; below a
  qualifying child it returns what the recursive call finds, and the child itself when
  the call finds nothing.
\<close>

lemma raycast_loop_find:
  "raycast_loop p cs =
     (case find (qualifies p) cs of
        None \<Rightarrow> None
      | Some c \<Rightarrow> (if rc_children c = [] then Some c
                   else case raycast_loop p (children_by_z c) of
                          Some res \<Rightarrow> if rc_visible res then Some res else Some c
                        | None \<Rightarrow> Some c))"
  by (induction cs) (simp_all add: qualifies_def children_by_z_def)

lemma raycast_False:
  "raycast None p (c # anc) False = raycast_node p c"
  by (simp add: children_by_z_def split: option.splits)

lemma find_qualifies: "find (qualifies p) cs = Some c \<Longrightarrow> qualifies p c \<and> c \<in> set cs"
  by (auto simp: find_Some_iff)

lemma set_children_by_z: "set (children_by_z c) = set (rc_children c)"
  by (simp add: children_by_z_def)

lemma size_child: "d \<in> set (rc_children c) \<Longrightarrow> size d < size c"
  by (cases c) (auto simp: less_Suc_eq_le size_list_estimation')

lemma raycast_loop_deepest:
  "find (qualifies p) (children_by_z c) = Some d \<Longrightarrow>
     \<exists>r. raycast_loop p (children_by_z c) = Some r \<and> deepest_hit p d r \<and> rc_visible r"
proof (induction c arbitrary: d rule: measure_induct_rule[where f = size])
  case (less c)
  from find_qualifies[OF less.prems] have q: "qualifies p d" and m: "d \<in> set (rc_children c)"
    by (simp_all add: set_children_by_z)
  from q have vis: "rc_visible d" by (simp add: qualifies_def)
  have sz: "size d < size c" using m by (rule size_child)
  show ?case
  proof (cases "find (qualifies p) (children_by_z d)")
    case None
    then have "raycast_loop p (children_by_z d) = None" by (simp add: raycast_loop_find)
    moreover from None have "deepest_hit p d d" by (rule deepest_here)
    ultimately show ?thesis using less.prems vis
      by (simp add: raycast_loop_find[of p "children_by_z c"])
  next
    case (Some e)
    from less.IH[OF sz Some] obtain r where
      r: "raycast_loop p (children_by_z d) = Some r" "deepest_hit p e r" "rc_visible r"
      by blast
    from Some have ne: "rc_children d \<noteq> []" by (auto simp: children_by_z_def)
    from Some r(2) have "deepest_hit p d r" by (rule deepest_below)
    with less.prems r ne show ?thesis
      by (simp add: raycast_loop_find[of p "children_by_z c"])
  qed
qed

lemma raycast_loop_none:
  "find (qualifies p) cs = None \<Longrightarrow> raycast_loop p cs = None"
  by (simp add: raycast_loop_find)

lemma deepest_hit_qualifies:
  "deepest_hit p c r \<Longrightarrow> qualifies p c \<Longrightarrow>
     qualifies p r \<and> (\<forall>d\<in>set (rc_children r). \<not> qualifies p d)"
proof (induction rule: deepest_hit.induct)
  case (deepest_here p c)
  then show ?case by (auto simp: find_None_iff set_children_by_z)
next
  case (deepest_below p c d r)
  from find_qualifies[OF deepest_below.hyps(1)] deepest_below.IH show ?case by simp
qed

lemma children_by_z_descending:
  "sorted (rev (map rc_z_index (children_by_z c)))"
  by (simp add: children_by_z_def rev_map[symmetric])


lemma raycast_two_siblings:
  assumes ch: "rc_children sp = [a, b] \<or> rc_children sp = [b, a]"
    and z: "rc_z_index a = 0" "rc_z_index b = 1"
    and q: "qualifies p b" and leaf: "rc_children b = []"
  shows "raycast_loop p (children_by_z sp) = Some b"
proof -
  from ch z have "children_by_z sp = [b, a]"
    by (auto simp: children_by_z_def)
  with q leaf show ?thesis by (simp add: raycast_loop_find)
qed

text \<open>
  C5. With no element tabbed, on a visible start container which, when the search may
  go upward, contains the pointer and does not ignore raycasts: the children are
  walked in descending z-index, the search stops at the first child that contains the
  pointer, is visible and does not ignore raycasts, and returns the hit found by
  descending from that child (front-most qualifying child at every level, until no
  child qualifies), which is the child itself when none of its children qualifies;
  when no child qualifies, the search goes on at the parent if it may go upward, and
  returns nothing otherwise. Of two overlapping leaf children with z-index 0 and 1
  that both qualify, the one with z-index 1 is returned. A tabbed element is returned
  whatever the tree.
\<close>

theorem C5_raycast_front_most_deepest:
  assumes vis: "rc_visible sp"
    and inside: "up \<longrightarrow> collidepoint (rc_rect sp) p \<and> \<not> rc_ignore_raycast sp"
  shows
    "(find (qualifies p) (children_by_z sp) = None \<longrightarrow>
        raycast None p (sp # anc) up = (if up then raycast None p anc True else None))
     \<and> (\<forall>c. find (qualifies p) (children_by_z sp) = Some c \<longrightarrow>
           (\<exists>r. raycast None p (sp # anc) up = Some r \<and> deepest_hit p c r \<and> qualifies p r
                \<and> (\<forall>d\<in>set (rc_children r). \<not> qualifies p d)))
     \<and> sorted (rev (map rc_z_index (children_by_z sp)))
     \<and> set (children_by_z sp) = set (rc_children sp)
     \<and> (\<forall>a b. (rc_children sp = [a, b] \<or> rc_children sp = [b, a])
              \<and> rc_z_index a = 0 \<and> rc_z_index b = 1 \<and> qualifies p a \<and> qualifies p b
              \<and> rc_children a = [] \<and> rc_children b = []
            \<longrightarrow> raycast None p (sp # anc) up = Some b)
     \<and> raycast (Some t) p chain up' = Some t"
proof -
  have r: "raycast None p (sp # anc) up =
             (case raycast_loop p (children_by_z sp) of
                Some res \<Rightarrow> Some res
              | None \<Rightarrow> if up then raycast None p anc True else None)"
    using vis inside by simp
  have 1: "raycast None p (sp # anc) up = (if up then raycast None p anc True else None)"
    if "find (qualifies p) (children_by_z sp) = None"
    using raycast_loop_none[OF that] r by simp
  have 2: "\<exists>r. raycast None p (sp # anc) up = Some r \<and> deepest_hit p c r \<and> qualifies p r
                \<and> (\<forall>d\<in>set (rc_children r). \<not> qualifies p d)"
    if c: "find (qualifies p) (children_by_z sp) = Some c" for c
  proof -
    from raycast_loop_deepest[OF c] obtain res where
      res: "raycast_loop p (children_by_z sp) = Some res" "deepest_hit p c res" by blast
    from find_qualifies[OF c] have "qualifies p c" by simp
    from deepest_hit_qualifies[OF res(2) this] res r show ?thesis by simp
  qed
  have 3: "raycast None p (sp # anc) up = Some b"
    if "rc_children sp = [a, b] \<or> rc_children sp = [b, a]" "rc_z_index a = 0" "rc_z_index b = 1"
       "qualifies p b" "rc_children b = []" for a b
    using raycast_two_siblings[OF that] r by simp
  show ?thesis
  proof (intro conjI)
    show "find (qualifies p) (children_by_z sp) = None \<longrightarrow>
        raycast None p (sp # anc) up = (if up then raycast None p anc True else None)"
      using 1 by blast
    show "\<forall>c. find (qualifies p) (children_by_z sp) = Some c \<longrightarrow>
           (\<exists>r. raycast None p (sp # anc) up = Some r \<and> deepest_hit p c r \<and> qualifies p r
                \<and> (\<forall>d\<in>set (rc_children r). \<not> qualifies p d))"
      using 2 by blast
    show "sorted (rev (map rc_z_index (children_by_z sp)))"
      by (rule children_by_z_descending)
    show "set (children_by_z sp) = set (rc_children sp)"
      by (rule set_children_by_z)
    show "\<forall>a b. (rc_children sp = [a, b] \<or> rc_children sp = [b, a])
              \<and> rc_z_index a = 0 \<and> rc_z_index b = 1 \<and> qualifies p a \<and> qualifies p b
              \<and> rc_children a = [] \<and> rc_children b = []
            \<longrightarrow> raycast None p (sp # anc) up = Some b"
      using 3 by blast
    show "raycast (Some t) p chain up' = Some t" by simp
  qed
qed

theorem C5_witness:
  "rc_visible (hit_container True)
   \<and> collidepoint (rc_rect (hit_container True)) (40, 40)
   \<and> \<not> rc_ignore_raycast (hit_container True)
   \<and> rc_children (hit_container True) = [hit_back, hit_front]
   \<and> rc_z_index hit_back = 0 \<and> rc_z_index hit_front = 1
   \<and> qualifies (40, 40) hit_back \<and> qualifies (40, 40) hit_front
   \<and> rc_children hit_back = [] \<and> rc_children hit_front = []
   \<and> raycast None (40, 40) [hit_container True] True = Some hit_front"
proof -
  have h: "rc_visible (hit_container True)"
    "True \<longrightarrow> collidepoint (rc_rect (hit_container True)) (40, 40) \<and> \<not> rc_ignore_raycast (hit_container True)"
    by (simp_all add: hit_container_def collidepoint_def)
  have k: "rc_children (hit_container True) = [hit_back, hit_front]"
    "rc_z_index hit_back = 0" "rc_z_index hit_front = 1"
    "qualifies (40, 40) hit_back" "qualifies (40, 40) hit_front"
    "rc_children hit_back = []" "rc_children hit_front = []"
    by (simp_all add: hit_container_def hit_back_def hit_front_def qualifies_def collidepoint_def)
  from C5_raycast_front_most_deepest[where anc = "[]", OF h, THEN conjunct2, THEN conjunct2,
         THEN conjunct2, THEN conjunct2, THEN conjunct1]
  have "\<forall>a b. (rc_children (hit_container True) = [a, b] \<or> rc_children (hit_container True) = [b, a])
              \<and> rc_z_index a = 0 \<and> rc_z_index b = 1 \<and> qualifies (40, 40) a \<and> qualifies (40, 40) b
              \<and> rc_children a = [] \<and> rc_children b = []
            \<longrightarrow> raycast None (40, 40) [hit_container True] True = Some b"
    .
  then have "raycast None (40, 40) [hit_container True] True = Some hit_front"
    using k by blast
  with h k show ?thesis by simp
qed

text \<open>
  The search of the children is not made on every hit-test. A container that is not
  visible answers with no element, and a container that does not contain the pointer
  hands the search to its parent when the search may go upward, as it may in the call
  of \<open>_logic\<close>: in both cases two overlapping children with z-index 0 and 1 that
  contain the pointer are passed over.
\<close>

theorem C5_counterexample:
  "rc_children (hit_container False) = [hit_back, hit_front]
   \<and> rc_children hit_small = [hit_back, hit_front]
   \<and> rc_z_index hit_back = 0 \<and> rc_z_index hit_front = 1
   \<and> qualifies (45, 45) hit_back \<and> qualifies (45, 45) hit_front
   \<and> rc_children hit_back = [] \<and> rc_children hit_front = []
   \<and> raycast None (45, 45) [hit_container False] False = None
   \<and> raycast None (45, 45) [hit_container False] True = None
   \<and> rc_visible hit_small
   \<and> raycast None (45, 45) [hit_small] True = None
   \<and> raycast None (45, 45) [hit_small] False = Some hit_front"
  by code_simp

section \<open>Properties of the press state machine\<close>






text \<open>The press callbacks and press events that each branch adds.\<close>

lemma press_callbacks_append [simp]:
  "press_callbacks (xs @ ys) = press_callbacks xs @ press_callbacks ys"
  by (simp add: press_callbacks_def)

lemma press_events_append [simp]:
  "press_events (xs @ ys) = press_events xs @ press_events ys"
  by (simp add: press_events_def)

lemma press_callbacks_simps [simp]:
  "press_callbacks [] = []"
  "press_callbacks (Event name n # es) = press_callbacks es"
  "press_callbacks (Callback name n # es) =
     (if name = ''on_start_press'' \<or> name = ''on_stop_press'' \<or> name = ''on_click''
         \<or> name = ''on_select'' \<or> name = ''on_deselect''
      then Callback name n # press_callbacks es else press_callbacks es)"
  by (auto simp: press_callbacks_def intro!: filter_cong split: emission.splits)

lemma press_events_simps [simp]:
  "press_events [] = []"
  "press_events (Callback name n # es) = press_events es"
  "press_events (Event name n # es) =
     (if name = ''START_PRESS'' \<or> name = ''STOP_PRESS'' \<or> name = ''CLICK''
         \<or> name = ''SELECT'' \<or> name = ''DESELECT''
      then Event name n # press_events es else press_events es)"
  by (auto simp: press_events_def intro!: filter_cong split: emission.splits)






















section \<open>Properties of the anchors\<close>

text \<open>
  C7. In a container that is scrolled, \<open>_apply_anchors\<close> on a node with an anchor on
  one axis moves the node on the other axis at every application: the axis without an
  anchor takes the current absolute edge as the position, and \<open>set_absolute_pos\<close>
  leaves the node at that position less the scroll offset of the parent. In the scene
  \<open>anchor_scene\<close>, whose absolute rectangles are the ones that
  \<open>_update_absolute_rect_pos\<close> computes, the first application puts the node at
  (65, 40) and leaves the target, the anchor and the scroll offset as they were; the
  second application puts it at (65, 10).
\<close>

theorem C7_apply_anchors_drifts_under_scroll:
  "map_option (map absolute_rect) (update_absolute_rect_pos 10 0 anchor_scene 1)
     = Some (map absolute_rect anchor_scene)
   \<and> map_option (\<lambda>s. absolute_rect (s ! 3)) (apply_anchors 10 0 anchor_scene 3)
     = Some \<lparr>left = 65, top = 40, width = 30, height = 10\<rparr>
   \<and> map_option (\<lambda>s. (absolute_rect (s ! 2), scroll_offset (s ! 1), anchors (s ! 3) ALeft,
                       map parent s, length s))
        (apply_anchors 10 0 anchor_scene 3)
     = Some (absolute_rect (anchor_scene ! 2), scroll_offset (anchor_scene ! 1),
             anchors (anchor_scene ! 3) ALeft, map parent anchor_scene, length anchor_scene)
   \<and> map_option (\<lambda>s. absolute_rect (s ! 3))
        (case apply_anchors 10 0 anchor_scene 3 of None \<Rightarrow> None | Some s \<Rightarrow> apply_anchors 10 0 s 3)
     = Some \<lparr>left = 65, top = 10, width = 30, height = 10\<rparr>"
  by code_simp

end
